theory Spec2Isabelle
  imports Complex_Main "HOL-Library.Sublist"
begin

section \<open>Skein-SAT: search for weak outputs (find\_weak\_outputs\_skein.cpp)\<close>

text \<open>
  A shallow embedding of \<^verbatim>\<open>find_weak_outputs_skein.cpp\<close>. Text files are lists
  of lines (what successive \<^verbatim>\<open>getline\<close> calls return, and what successive
  \<^verbatim>\<open><< ... << endl\<close> writes produce). Every way the process can stop
  (\<^verbatim>\<open>exit\<close>, a failed \<^verbatim>\<open>assert\<close>, an uncaught exception) is a value of
  type \<open>halt\<close>, and a function that can stop the process returns \<open>halt + 'a\<close>.
  The Makefile compiles without \<^verbatim>\<open>-DNDEBUG\<close>, so every \<^verbatim>\<open>assert\<close> is live.
\<close>

subsection \<open>Constants and basic types\<close>

text \<open>\<^verbatim>\<open>enum result{ UNSAT = 0, SAT = 1, INTERR = 2 };\<close>\<close>

datatype result = UNSAT | SAT | INTERR

text \<open>How the process stops before \<^verbatim>\<open>main\<close> returns.\<close>

datatype stoi_error = invalid_argument | out_of_range

datatype halt =
    EXIT_SUCCESS
  | EXIT_FAILURE
  | ASSERT_FAILED
  | UNCAUGHT stoi_error

definition version :: string where
  "version = ''0.0.2''"

definition MAX_LIMITS_SEC :: "nat list" where
  "MAX_LIMITS_SEC = [3, 4, 5, 20, 30]"

definition MAX_UNSAT_INST :: nat where
  "MAX_UNSAT_INST = 3"

definition SEQ_LEN :: nat where
  "SEQ_LEN = 512"

definition SUBSEQ_LEN_1 :: nat where
  "SUBSEQ_LEN_1 = 8"

definition CNF_NAME_PART_1 :: string where
  "CNF_NAME_PART_1 = ''cbmc_skein_1r_''"

definition CNF_NAME_PART_2 :: string where
  "CNF_NAME_PART_2 = ''of12_template_explicit_output''"

definition SOLVER :: string where
  "SOLVER = ''kissat4.0.1''"

subsection \<open>Library routines the program calls\<close>

text \<open>
  \<^verbatim>\<open>std::string::find(pat)\<close>: the position of the first occurrence of \<open>pat\<close>,
  \<open>None\<close> standing for \<^verbatim>\<open>string::npos\<close>.
\<close>

fun find_from :: "string \<Rightarrow> string \<Rightarrow> nat \<Rightarrow> nat option" where
  "find_from pat [] k = (if pat = [] then Some k else None)"
| "find_from pat (c # cs) k =
     (if prefix pat (c # cs) then Some k else find_from pat cs (Suc k))"

definition str_find :: "string \<Rightarrow> string \<Rightarrow> nat option" where
  "str_find str pat = find_from pat str 0"

text \<open>Decimal output of an unsigned number (\<^verbatim>\<open>operator<<\<close>, \<^verbatim>\<open>to_string\<close>).\<close>

definition digit_char :: "nat \<Rightarrow> char" where
  "digit_char d = ''0123456789'' ! d"

function to_string :: "nat \<Rightarrow> string" where
  "to_string n =
     (if n < 10 then [digit_char n] else to_string (n div 10) @ [digit_char (n mod 10)])"
  by pat_completeness auto
termination
  by (relation "measure id") auto

declare to_string.simps [simp del]

definition int_to_string :: "int \<Rightarrow> string" where
  "int_to_string v = (if v < 0 then CHR ''-'' # to_string (nat (- v)) else to_string (nat v))"

text \<open>
  Formatted input. \<^verbatim>\<open>isspace\<close> is the C locale's; \<^verbatim>\<open>stream >> word\<close> skips white
  space and takes the characters up to the next white space, and leaves \<open>word\<close> as it
  was when the stream holds nothing but white space.
\<close>

definition isspace :: "char \<Rightarrow> bool" where
  "isspace c \<longleftrightarrow> c \<in> {CHR '' '', CHR 0x09, CHR 0x0A, CHR 0x0B, CHR 0x0C, CHR 0x0D}"

definition isdigit :: "char \<Rightarrow> bool" where
  "isdigit c \<longleftrightarrow> c \<in> set ''0123456789''"

definition digit_value :: "char \<Rightarrow> nat" where
  "digit_value c = of_char c - 48"

definition extract_word :: "string \<Rightarrow> string \<Rightarrow> string \<times> string" where
  "extract_word word stream =
     (let s = dropWhile isspace stream in
      if s = [] then (word, [])
      else (takeWhile (\<lambda>c. \<not> isspace c) s, dropWhile (\<lambda>c. \<not> isspace c) s))"

definition decimal_value :: "string \<Rightarrow> nat" where
  "decimal_value ds = foldl (\<lambda>v c. 10 * v + digit_value c) 0 ds"

text \<open>
  \<^verbatim>\<open>istringstream(word) >> var_num\<close> for an \<^verbatim>\<open>unsigned\<close> (32 bits), as the GNU
  library reads it: an optional sign, then decimal digits; no digit stores 0, a value
  past \<^verbatim>\<open>UINT_MAX\<close> stores \<^verbatim>\<open>UINT_MAX\<close>, a minus sign negates modulo \<open>2^32\<close>.
\<close>

definition UINT_MAX :: nat where
  "UINT_MAX = 4294967295"

definition read_unsigned :: "string \<Rightarrow> nat" where
  "read_unsigned word =
     (let negative = (word \<noteq> [] \<and> hd word = CHR ''-'');
          signed = (word \<noteq> [] \<and> (hd word = CHR ''-'' \<or> hd word = CHR ''+''));
          ds = takeWhile isdigit (if signed then tl word else word);
          v = decimal_value ds
      in if ds = [] then 0
         else if v > UINT_MAX then UINT_MAX
         else if negative then (UINT_MAX + 1 - v) mod (UINT_MAX + 1)
         else v)"

subsection \<open>CandidateGenerator: \<^verbatim>\<open>rand_seq8\<close>\<close>

text \<open>
  The random source is the state \<open>rng\<close> of type \<open>'g\<close> (the \<^verbatim>\<open>mt19937\<close>) with the
  draw \<open>draw :: 'g \<Rightarrow> int \<times> 'g\<close> (\<^verbatim>\<open>dist(rng)\<close> for
  \<^verbatim>\<open>uniform_int_distribution<int> dist(0, 1)\<close>), which returns the number drawn and
  the advanced state.

  \<open>draw_loop\<close> is the inner \<^verbatim>\<open>for (unsigned i=0; i<SUBSEQ_LEN_1; i++)\<close> loop with its
  \<^verbatim>\<open>assert(rand == 1 or rand == 0)\<close>; \<open>block_loop\<close> is the enclosing
  \<^verbatim>\<open>do { ... } while (sstream8.str().size() < SEQ_LEN)\<close>.
\<close>

function draw_loop ::
  "('g \<Rightarrow> int \<times> 'g) \<Rightarrow> nat \<Rightarrow> 'g \<Rightarrow> string \<Rightarrow> string \<Rightarrow> halt + (string \<times> string \<times> 'g)"
where
  "draw_loop draw i rng sstream8 inverse_bools_str =
     (if i < SUBSEQ_LEN_1 then
        (case draw rng of (rand, rng') \<Rightarrow>
           if rand = 1 \<or> rand = 0 then
             draw_loop draw (i + 1) rng' (sstream8 @ int_to_string rand)
               (inverse_bools_str @ (if rand = 1 then ''0'' else ''1''))
           else Inl ASSERT_FAILED)
      else Inr (sstream8, inverse_bools_str, rng))"
  by pat_completeness auto
termination
  by (relation "measure (\<lambda>(draw, i, rng, s, iv). SUBSEQ_LEN_1 - i)") auto

declare draw_loop.simps [simp del]

function block_loop :: "('g \<Rightarrow> int \<times> 'g) \<Rightarrow> 'g \<Rightarrow> string \<Rightarrow> halt + (string \<times> 'g)" where
  "block_loop draw rng sstream8 =
     (case draw_loop draw 0 rng sstream8 [] of
        Inl h \<Rightarrow> Inl h
      | Inr (sstream8', inverse_bools_str, rng') \<Rightarrow>
          if length (sstream8' @ inverse_bools_str) < SEQ_LEN
          then block_loop draw rng' (sstream8' @ inverse_bools_str)
          else Inr (sstream8' @ inverse_bools_str, rng'))"
  by pat_completeness auto
termination
proof (relation "measure (\<lambda>(draw, rng, s). SEQ_LEN - length s)", goal_cases)
  case 1
  show ?case by simp
next
  case (2 draw rng s x2 s' y iv rng')
  have grows: "draw_loop draw i g a b = Inr (a', b', g') \<Longrightarrow>
      length a \<le> length a' \<and> length b' = length b + (SUBSEQ_LEN_1 - i)"
    for i g a b a' b' and g' :: 'a
  proof (induction draw i g a b rule: draw_loop.induct)
    case (1 draw i rng sstream8 inverse_bools_str)
    show ?case
    proof (cases "i < SUBSEQ_LEN_1")
      case True
      obtain rand rng1 where d: "draw rng = (rand, rng1)" by (cases "draw rng")
      from "1.prems" True d have ok: "rand = 1 \<or> rand = 0"
        by (auto simp: draw_loop.simps [of draw i] split: if_splits)
      from "1.prems" True d ok
      have "draw_loop draw (i + 1) rng1 (sstream8 @ int_to_string rand)
              (inverse_bools_str @ (if rand = 1 then ''0'' else ''1'')) = Inr (a', b', g')"
        by (auto simp: draw_loop.simps [of draw i] split: if_splits)
      from "1.IH" [OF True d [symmetric] ok this] True show ?thesis by auto
    next
      case False
      with "1.prems" show ?thesis by (simp add: draw_loop.simps [of draw i])
    qed
  qed
  from 2 have "draw_loop draw 0 rng s [] = Inr (s', iv, rng')"
    by simp
  from grows [OF this] 2 show ?case
    by (auto simp: SUBSEQ_LEN_1_def)
qed

declare block_loop.simps [simp del]

text \<open>\<^verbatim>\<open>rand_seq8\<close>, with its closing \<^verbatim>\<open>assert(sstream8.str().size() == SEQ_LEN)\<close>.\<close>

definition rand_seq8 :: "('g \<Rightarrow> int \<times> 'g) \<Rightarrow> 'g \<Rightarrow> halt + (string \<times> 'g)" where
  "rand_seq8 draw rng =
     (case block_loop draw rng [] of
        Inl h \<Rightarrow> Inl h
      | Inr (str, rng') \<Rightarrow> if length str = SEQ_LEN then Inr (str, rng') else Inl ASSERT_FAILED)"

definition gen_rand_output :: "('g \<Rightarrow> int \<times> 'g) \<Rightarrow> 'g \<Rightarrow> halt + (string \<times> 'g)" where
  "gen_rand_output draw rng = rand_seq8 draw rng"

text \<open>
  Vocabulary for stating what a candidate looks like: the \<open>n\<close> next draws written as
  bit characters, the draws grouped eight at a time, and the complement of a bit
  character.
\<close>

definition complement_bit :: "char \<Rightarrow> char" where
  "complement_bit c = (if c = CHR ''1'' then CHR ''0'' else CHR ''1'')"

fun draw_bits :: "('g \<Rightarrow> int \<times> 'g) \<Rightarrow> nat \<Rightarrow> 'g \<Rightarrow> string \<times> 'g" where
  "draw_bits draw 0 rng = ([], rng)"
| "draw_bits draw (Suc n) rng =
     (case draw rng of (rand, rng') \<Rightarrow>
        case draw_bits draw n rng' of (bs, rng'') \<Rightarrow>
          ((if rand = 1 then CHR ''1'' else CHR ''0'') # bs, rng''))"

fun draw_blocks :: "('g \<Rightarrow> int \<times> 'g) \<Rightarrow> nat \<Rightarrow> 'g \<Rightarrow> string list \<times> 'g" where
  "draw_blocks draw 0 rng = ([], rng)"
| "draw_blocks draw (Suc n) rng =
     (case draw_bits draw 8 rng of (b, rng') \<Rightarrow>
        case draw_blocks draw n rng' of (bs, rng'') \<Rightarrow> (b # bs, rng''))"

text \<open>
  A sample random source for concrete evaluations: the state is the next bit, and the
  draws alternate 0, 1, 0, 1, ...
\<close>

definition alternating :: "bool \<Rightarrow> int \<times> bool" where
  "alternating b = (if b then 1 else 0, \<not> b)"

subsection \<open>InstanceMaterializer: \<^verbatim>\<open>gen_rand_cnf\<close>\<close>

text \<open>
  The files the program reads: a name is mapped to the lines of the file, \<open>None\<close> when
  it cannot be opened. \<^verbatim>\<open>getline\<close> on a stream that did not open yields no line.
\<close>

type_synonym files = "string \<Rightarrow> string list option"

definition read_lines :: "files \<Rightarrow> string \<Rightarrow> string list" where
  "read_lines fs name = (case fs name of None \<Rightarrow> [] | Some lines \<Rightarrow> lines)"

definition template_name :: "nat \<Rightarrow> string" where
  "template_name operat_num =
     CNF_NAME_PART_1 @ to_string operat_num @ CNF_NAME_PART_2 @ ''.cnf''"

definition rand_cnf_name :: "nat \<Rightarrow> nat \<Rightarrow> string" where
  "rand_cnf_name operat_num seed =
     CNF_NAME_PART_1 @ to_string operat_num @ CNF_NAME_PART_2 @
     ''_hashlen512_seed'' @ to_string seed @ ''.cnf''"

text \<open>
  The \<^verbatim>\<open>p\<close> line: three \<^verbatim>\<open>sstream2 >> word\<close> in a row, then the last word read as
  the number of variables.
\<close>

definition header_var_num :: "string \<Rightarrow> nat" where
  "header_var_num str =
     (case extract_word [] str of (w1, s1) \<Rightarrow>
      case extract_word w1 s1 of (w2, s2) \<Rightarrow>
      case extract_word w2 s2 of (w3, s3) \<Rightarrow> read_unsigned w3)"

text \<open>
  The \<^verbatim>\<open>while (getline(ifile, str))\<close> loop over the template, with the running
  \<^verbatim>\<open>var_num\<close> and \<^verbatim>\<open>base_clauses\<close>. \<^verbatim>\<open>str[0]\<close> of an empty line is the
  terminating zero character, so an empty line is kept as a clause.
\<close>

fun read_template :: "string list \<Rightarrow> nat \<Rightarrow> string list \<Rightarrow> nat \<times> string list" where
  "read_template [] var_num base_clauses = (var_num, base_clauses)"
| "read_template (str # rest) var_num base_clauses =
     (if str \<noteq> [] \<and> hd str = CHR ''c'' then read_template rest var_num base_clauses
      else if str \<noteq> [] \<and> hd str = CHR ''p'' then
        read_template rest (header_var_num str) base_clauses
      else read_template rest var_num (base_clauses @ [str]))"

text \<open>
  One line of the closing loop. \<^verbatim>\<open>var_num - rand_output.size() + 1 + i\<close> mixes an
  \<^verbatim>\<open>unsigned\<close> with a \<^verbatim>\<open>size_t\<close>, so it is computed in \<^verbatim>\<open>size_t\<close>: modulo
  \<open>2^64\<close> on the platforms the Makefile targets.
\<close>

definition SIZE_MODULUS :: int where
  "SIZE_MODULUS = 2 ^ 64"

definition unit_clause :: "nat \<Rightarrow> string \<Rightarrow> nat \<Rightarrow> string" where
  "unit_clause var_num rand_output i =
     (if rand_output ! i = CHR ''0'' then ''-'' else []) @
     to_string (nat ((int var_num - int (length rand_output) + 1 + int i) mod SIZE_MODULUS)) @
     '' 0''"

text \<open>
  \<^verbatim>\<open>gen_rand_cnf\<close> returns the name of the file it writes; the model pairs the name
  with the lines sent to that file. A template file that is missing yields no line, so
  the first assertion fails.
\<close>

definition gen_rand_cnf :: "string \<Rightarrow> nat \<Rightarrow> nat \<Rightarrow> files \<Rightarrow> halt + (string \<times> string list)" where
  "gen_rand_cnf rand_output operat_num seed fs =
     (case read_template (read_lines fs (template_name operat_num)) 0 [] of
        (var_num, base_clauses) \<Rightarrow>
          if \<not> var_num > 0 then Inl ASSERT_FAILED
          else if \<not> length base_clauses > 0 then Inl ASSERT_FAILED
          else Inr (rand_cnf_name operat_num seed,
                 (''p cnf '' @ to_string var_num @ '' '' @
                    to_string (length base_clauses + length rand_output))
                 # base_clauses
                 @ map (unit_clause var_num rand_output) [0..<length rand_output]))"

text \<open>Sample templates for concrete evaluations.\<close>

definition sample_template :: "string list" where
  "sample_template = ''c stage 3'' # ''p cnf 600 50'' # replicate 50 ''1 -2 0''"



definition sample_candidate :: string where
  "sample_candidate = ''10110100'' @ replicate 504 (CHR ''0'')"


definition sample_files :: "string list \<Rightarrow> files" where
  "sample_files template = (\<lambda>name. if name = template_name 3 then Some template else None)"

subsection \<open>OracleClient: \<^verbatim>\<open>read_solver_result\<close>\<close>

text \<open>
  The \<^verbatim>\<open>while (getline(ifile, str))\<close> loop of \<^verbatim>\<open>read_solver_result\<close>: it leaves at
  the first line holding one of the two markers, the satisfiable marker tested first.
\<close>

fun scan_result :: "string list \<Rightarrow> result" where
  "scan_result [] = INTERR"
| "scan_result (str # rest) =
     (if str_find str ''s SATISFIABLE'' \<noteq> None then SAT
      else if str_find str ''s UNSATISFIABLE'' \<noteq> None then UNSAT
      else scan_result rest)"

text \<open>
  The file is \<open>None\<close> when it cannot be opened (\<^verbatim>\<open>!ifile.is_open()\<close>), and
  \<open>Some\<close> of its lines otherwise.
\<close>

definition read_solver_result :: "string list option \<Rightarrow> halt + result" where
  "read_solver_result file =
     (case file of
        None \<Rightarrow> Inl EXIT_FAILURE
      | Some lines \<Rightarrow> Inr (scan_result lines))"

subsection \<open>OracleClient: \<^verbatim>\<open>solve_cnf\<close>\<close>

definition solver_command :: "string \<Rightarrow> nat \<Rightarrow> nat \<Rightarrow> string" where
  "solver_command cnf_name time_lim seed =
     SOLVER @ '' --time='' @ to_string time_lim @ '' ./'' @ cnf_name @
     '' > '' @ ''log_solver_seed'' @ to_string seed"

text \<open>
  \<^verbatim>\<open>solve_cnf\<close>. The external solver is the parameter \<open>exec\<close>: it maps the command
  line to the result log as \<^verbatim>\<open>read_solver_result\<close> finds it afterwards. The source's
  fourth parameter \<^verbatim>\<open>cur_total_runtime\<close> is not used by the body.
\<close>

definition solve_cnf :: "(string \<Rightarrow> string list option) \<Rightarrow> string \<Rightarrow> nat \<Rightarrow> nat \<Rightarrow> halt + result" where
  "solve_cnf exec cnf_name operat_num seed =
     (if \<not> (operat_num \<ge> 3 \<and> operat_num \<le> 7) then Inl ASSERT_FAILED
      else let time_lim = MAX_LIMITS_SEC ! (operat_num - 3) in
        if \<not> time_lim > 0 then Inl ASSERT_FAILED
        else read_solver_result (exec (solver_command cnf_name time_lim seed)))"

text \<open>
  \<^verbatim>\<open>elapsed_time_sec\<close>: the measured milliseconds (an \<^verbatim>\<open>unsigned\<close>) divided by 1000.
  The \<^verbatim>\<open>double\<close> values of the program are modelled as real numbers; the program only
  adds and compares them.
\<close>

definition elapsed_time_sec :: "nat \<Rightarrow> real" where
  "elapsed_time_sec time_millisec = real time_millisec / 1000"

subsection \<open>SearchCoordinator: the stage loop of \<^verbatim>\<open>main\<close>\<close>

text \<open>
  What a worker leaves behind, in order: every stage it ran (\<^verbatim>\<open>gen_rand_cnf\<close> followed
  by \<^verbatim>\<open>solve_cnf\<close>, with the verdict and the measured runtime), every line it appended
  to its output file with \<^verbatim>\<open>write_to_output\<close>, and what it printed on \<^verbatim>\<open>cout\<close>.
  A log line is kept as its fields.
\<close>

datatype log_line =
    LOG_START nat nat real
  | LOG_PRUNED real real
  | LOG_TOO_MANY_UNSAT nat nat
  | LOG_STAGE nat nat real real
  | LOG_CHECKED nat
  | LOG_UPDATED string real nat

datatype event =
    STAGE_RUN nat result real
  | WRITE_TO_OUTPUT log_line
  | COUT string real

text \<open>The variables of one pass of the \<^verbatim>\<open>for (;;)\<close> loop, and the events of that pass.\<close>

record evaluation =
  cur_total_runtime :: real
  unsat_inst :: nat
  is_break :: bool
  trace :: "event list"

definition init_evaluation :: evaluation where
  "init_evaluation = \<lparr>cur_total_runtime = 0, unsat_inst = 0, is_break = False, trace = []\<rparr>"

text \<open>
  The body of \<^verbatim>\<open>for (unsigned operat_num=3; operat_num<=7; operat_num++)\<close>. The
  parameter \<open>stage\<close> stands for the three statements that materialize the instance,
  solve it and measure the time; it yields the verdict and the runtime, or stops the
  process. Every \<^verbatim>\<open>break\<close> of the source follows \<^verbatim>\<open>is_break = true\<close>, and nothing
  else sets that flag, so the loop below leaves exactly when the body has set it.
\<close>

definition stage_body ::
  "real \<Rightarrow> (nat \<Rightarrow> halt + result \<times> real) \<Rightarrow> nat \<Rightarrow> evaluation \<Rightarrow> halt + evaluation"
where
  "stage_body min_total_solving_runtime stage operat_num e =
     (if min_total_solving_runtime > 0 \<and> cur_total_runtime e \<ge> min_total_solving_runtime then
        Inr (e\<lparr>is_break := True,
               trace := trace e @
                 [WRITE_TO_OUTPUT (LOG_PRUNED (cur_total_runtime e) min_total_solving_runtime)]\<rparr>)
      else
        case stage operat_num of
          Inl h \<Rightarrow> Inl h
        | Inr (res, runtime) \<Rightarrow>
            let e1 = e\<lparr>cur_total_runtime := cur_total_runtime e + runtime,
                       trace := trace e @ [STAGE_RUN operat_num res runtime]\<rparr>
            in if res = INTERR then Inr (e1\<lparr>is_break := True\<rparr>)
               else
                 let e2 = (if res = UNSAT then e1\<lparr>unsat_inst := unsat_inst e1 + 1\<rparr> else e1)
                 in if unsat_inst e2 > MAX_UNSAT_INST then
                      Inr (e2\<lparr>is_break := True,
                              trace := trace e2 @
                                [WRITE_TO_OUTPUT (LOG_TOO_MANY_UNSAT (unsat_inst e2) MAX_UNSAT_INST)]\<rparr>)
                    else
                      Inr (e2\<lparr>trace := trace e2 @
                                [WRITE_TO_OUTPUT (LOG_STAGE operat_num (unsat_inst e2) runtime
                                   (cur_total_runtime e2))]\<rparr>))"

function stage_loop ::
  "real \<Rightarrow> (nat \<Rightarrow> halt + result \<times> real) \<Rightarrow> nat \<Rightarrow> evaluation \<Rightarrow> halt + evaluation"
where
  "stage_loop min_total_solving_runtime stage operat_num e =
     (if operat_num \<le> 7 then
        case stage_body min_total_solving_runtime stage operat_num e of
          Inl h \<Rightarrow> Inl h
        | Inr e' \<Rightarrow>
            if is_break e' then Inr e'
            else stage_loop min_total_solving_runtime stage (operat_num + 1) e'
      else Inr e)"
  by pat_completeness auto
termination
  by (relation "measure (\<lambda>(m, stage, operat_num, e). 8 - operat_num)") auto

declare stage_loop.simps [simp del]

text \<open>
  Vocabulary for the claims. \<open>entry_state m stage k\<close> is the state in which the loop
  enters stage \<open>3 + k\<close>, after \<open>k\<close> stages that neither stopped the process nor left
  the loop; \<open>None\<close> when the loop does not get that far. \<open>stages_run\<close> lists the
  stages that were run, and \<open>unsat_verdicts\<close> counts the unsatisfiable verdicts. The
  three ways of abandoning a candidate are told apart by what the worker left behind:
  the prune line, the too-many-unsat line, or nothing after the inconclusive stage.
\<close>

primrec entry_state ::
  "real \<Rightarrow> (nat \<Rightarrow> halt + result \<times> real) \<Rightarrow> nat \<Rightarrow> evaluation option"
where
  "entry_state m stage 0 = Some init_evaluation"
| "entry_state m stage (Suc k) =
     (case entry_state m stage k of
        None \<Rightarrow> None
      | Some e \<Rightarrow>
          (case stage_body m stage (3 + k) e of
             Inl h \<Rightarrow> None
           | Inr e' \<Rightarrow> if is_break e' then None else Some e'))"

fun stages_run :: "event list \<Rightarrow> nat list" where
  "stages_run [] = []"
| "stages_run (STAGE_RUN n res t # evs) = n # stages_run evs"
| "stages_run (ev # evs) = stages_run evs"

fun unsat_verdicts :: "event list \<Rightarrow> nat" where
  "unsat_verdicts [] = 0"
| "unsat_verdicts (STAGE_RUN n UNSAT t # evs) = Suc (unsat_verdicts evs)"
| "unsat_verdicts (ev # evs) = unsat_verdicts evs"

fun is_pruned_line :: "event \<Rightarrow> bool" where
  "is_pruned_line (WRITE_TO_OUTPUT (LOG_PRUNED c m)) = True"
| "is_pruned_line ev = False"

fun is_too_many_unsat_line :: "event \<Rightarrow> bool" where
  "is_too_many_unsat_line (WRITE_TO_OUTPUT (LOG_TOO_MANY_UNSAT u m)) = True"
| "is_too_many_unsat_line ev = False"

fun is_inconclusive_run :: "event \<Rightarrow> bool" where
  "is_inconclusive_run (STAGE_RUN n INTERR t) = True"
| "is_inconclusive_run ev = False"

definition abandoned_pruned :: "evaluation \<Rightarrow> bool" where
  "abandoned_pruned e \<longleftrightarrow> is_break e \<and> list_ex is_pruned_line (trace e)"

definition abandoned_too_many_unsat :: "evaluation \<Rightarrow> bool" where
  "abandoned_too_many_unsat e \<longleftrightarrow> is_break e \<and> list_ex is_too_many_unsat_line (trace e)"

definition abandoned_inconclusive :: "evaluation \<Rightarrow> bool" where
  "abandoned_inconclusive e \<longleftrightarrow>
     is_break e \<and> trace e \<noteq> [] \<and> is_inconclusive_run (last (trace e))"

text \<open>
  The verdicts as the solver gives them: \<open>unsat_count stage n\<close> is the number of stages
  in \<open>[3, n)\<close> whose instance the solver reports unsatisfiable.
\<close>

definition unsat_count :: "(nat \<Rightarrow> halt + result \<times> real) \<Rightarrow> nat \<Rightarrow> nat" where
  "unsat_count stage n =
     length (filter (\<lambda>j. case stage j of Inl h \<Rightarrow> False | Inr (res, t) \<Rightarrow> res = UNSAT) [3..<n])"

subsection \<open>WorkerPool: one worker of \<^verbatim>\<open>main\<close>\<close>

text \<open>
  What surrounds a worker: the random source (\<open>rng_draw\<close>, and \<open>seed_rng\<close> for
  \<^verbatim>\<open>rng.seed(i)\<close>), the template files, and the behaviour of the solver during pass
  \<open>k\<close> of the \<^verbatim>\<open>for (;;)\<close> loop: \<open>solver_exec k\<close> maps the command line to the result log
  it leaves, and \<open>elapsed_millisec k operat_num\<close> is the time measured around
  \<^verbatim>\<open>solve_cnf\<close>.
\<close>

record 'g env =
  rng_draw :: "'g \<Rightarrow> int \<times> 'g"
  seed_rng :: "nat \<Rightarrow> 'g"
  templates :: files
  solver_exec :: "nat \<Rightarrow> string \<Rightarrow> string list option"
  elapsed_millisec :: "nat \<Rightarrow> nat \<Rightarrow> nat"

text \<open>
  The three statements \<^verbatim>\<open>gen_rand_cnf\<close>, \<^verbatim>\<open>solve_cnf\<close>, \<^verbatim>\<open>elapsed_time_sec\<close> of the
  loop body.
\<close>

definition run_stage :: "'g env \<Rightarrow> nat \<Rightarrow> string \<Rightarrow> nat \<Rightarrow> nat \<Rightarrow> halt + result \<times> real" where
  "run_stage env k rand_output seed operat_num =
     (case gen_rand_cnf rand_output operat_num seed (templates env) of
        Inl h \<Rightarrow> Inl h
      | Inr (cnf_name, cnf_lines) \<Rightarrow>
          (case solve_cnf (solver_exec env k) cnf_name operat_num seed of
             Inl h \<Rightarrow> Inl h
           | Inr res \<Rightarrow> Inr (res, elapsed_time_sec (elapsed_millisec env k operat_num))))"

text \<open>
  The state a worker carries from one pass to the next. The program shares
  \<^verbatim>\<open>min_total_solving_runtime\<close> between the workers without synchronization; the model
  follows one worker, so the variable changes only where this worker assigns it.
\<close>

record 'g worker =
  checked_outputs :: nat
  rng_state :: 'g
  min_total_solving_runtime :: real
  events :: "event list"

definition start_worker :: "'g env \<Rightarrow> nat \<Rightarrow> nat \<Rightarrow> 'g worker" where
  "start_worker env cpu_num seed =
     \<lparr>checked_outputs = 0, rng_state = seed_rng env seed, min_total_solving_runtime = - 1,
      events = [WRITE_TO_OUTPUT (LOG_START cpu_num seed (- 1))]\<rparr>"

text \<open>
  The evaluation of the candidate of pass \<open>k\<close>: the candidate drawn, the advanced
  random state, and the variables at the end of the stage loop.
\<close>

definition candidate_evaluation ::
  "'g env \<Rightarrow> nat \<Rightarrow> nat \<Rightarrow> 'g worker \<Rightarrow> halt + (string \<times> 'g \<times> evaluation)"
where
  "candidate_evaluation env seed k w =
     (case gen_rand_output (rng_draw env) (rng_state w) of
        Inl h \<Rightarrow> Inl h
      | Inr (rand_output, rng') \<Rightarrow>
          (case stage_loop (min_total_solving_runtime w) (run_stage env k rand_output seed) 3
                  init_evaluation of
             Inl h \<Rightarrow> Inl h
           | Inr e \<Rightarrow> Inr (rand_output, rng', e)))"

text \<open>One pass of \<^verbatim>\<open>for (;;)\<close>; \<^verbatim>\<open>checked_outputs\<close> is an \<^verbatim>\<open>unsigned\<close>.\<close>

definition candidate_step :: "'g env \<Rightarrow> nat \<Rightarrow> nat \<Rightarrow> 'g worker \<Rightarrow> halt + 'g worker" where
  "candidate_step env seed k w =
     (case candidate_evaluation env seed k w of
        Inl h \<Rightarrow> Inl h
      | Inr (rand_output, rng', e) \<Rightarrow>
          let checked = (checked_outputs w + 1) mod 2 ^ 32;
              w1 = w\<lparr>checked_outputs := checked, rng_state := rng',
                      events := events w @ trace e @
                        (if checked mod 10 = 0 then [WRITE_TO_OUTPUT (LOG_CHECKED checked)]
                         else [])\<rparr>
          in if is_break e then Inr w1
             else if min_total_solving_runtime w < 0 \<or>
                     cur_total_runtime e < min_total_solving_runtime w then
               Inr (w1\<lparr>min_total_solving_runtime := cur_total_runtime e,
                       events := events w1 @
                         [COUT rand_output (cur_total_runtime e),
                          WRITE_TO_OUTPUT (LOG_UPDATED rand_output (cur_total_runtime e) checked)]\<rparr>)
             else Inr w1)"

text \<open>
  The \<^verbatim>\<open>for (;;)\<close> loop has no exit. \<open>worker_run env cpu_num seed n\<close> is the worker
  after \<open>n\<close> passes, or how the process stopped during them.
\<close>

primrec worker_run :: "'g env \<Rightarrow> nat \<Rightarrow> nat \<Rightarrow> nat \<Rightarrow> halt + 'g worker" where
  "worker_run env cpu_num seed 0 = Inr (start_worker env cpu_num seed)"
| "worker_run env cpu_num seed (Suc k) =
     (case worker_run env cpu_num seed k of
        Inl h \<Rightarrow> Inl h
      | Inr w \<Rightarrow> candidate_step env seed k w)"

text \<open>
  Samples for concrete evaluations: a stage that always gives the same verdict in the
  same time, one that always stops the process, and one that is satisfiable before stage
  \<open>n\<close> and inconclusive from there on; surroundings in which every template is the sample template and the solver
  always reports a satisfiable instance, in 2 ms during the first pass and in 1 ms
  afterwards; the same surroundings with a solver that answers in less than a
  millisecond; with a solver that never reaches a verdict; with a solver that always
  reports an unsatisfiable instance; without any template file; and with a solver that
  leaves no result log. The sample random source yields the candidate
  \<open>alternating_candidate\<close>. \<open>bounded_worker env m\<close> is a worker at its first pass whose
  best bound is already \<open>m\<close>.
\<close>

definition constant_stage :: "result \<Rightarrow> nat \<Rightarrow> nat \<Rightarrow> halt + result \<times> real" where
  "constant_stage res time_millisec operat_num = Inr (res, elapsed_time_sec time_millisec)"

definition failing_stage :: "halt \<Rightarrow> nat \<Rightarrow> halt + result \<times> real" where
  "failing_stage h operat_num = Inl h"

definition inconclusive_from :: "nat \<Rightarrow> nat \<Rightarrow> halt + result \<times> real" where
  "inconclusive_from n operat_num =
     (if operat_num < n then Inr (SAT, elapsed_time_sec 1) else Inr (INTERR, elapsed_time_sec 2))"

definition sample_env :: "bool env" where
  "sample_env =
     \<lparr>rng_draw = alternating, seed_rng = (\<lambda>seed. False),
      templates = (\<lambda>name. Some sample_template),
      solver_exec = (\<lambda>k cmd. Some [''c exit 10'', ''s SATISFIABLE'']),
      elapsed_millisec = (\<lambda>k operat_num. if k = 0 then 2 else 1)\<rparr>"

definition instant_env :: "bool env" where
  "instant_env = sample_env\<lparr>elapsed_millisec := (\<lambda>k operat_num. 0)\<rparr>"

definition alternating_candidate :: string where
  "alternating_candidate = concat (replicate 32 ''0101010110101010'')"

definition inconclusive_env :: "bool env" where
  "inconclusive_env = sample_env\<lparr>solver_exec := (\<lambda>k cmd. Some [''c caught signal''])\<rparr>"

definition unsat_env :: "bool env" where
  "unsat_env = sample_env\<lparr>solver_exec := (\<lambda>k cmd. Some [''c exit 20'', ''s UNSATISFIABLE''])\<rparr>"

definition no_template_env :: "bool env" where
  "no_template_env = sample_env\<lparr>templates := (\<lambda>name. None)\<rparr>"

definition no_log_env :: "bool env" where
  "no_log_env = sample_env\<lparr>solver_exec := (\<lambda>k cmd. None)\<rparr>"

definition bounded_worker :: "'g env \<Rightarrow> real \<Rightarrow> 'g worker" where
  "bounded_worker env m = (start_worker env 1 0)\<lparr>min_total_solving_runtime := m\<rparr>"

subsection \<open>Command line: the head of \<^verbatim>\<open>main\<close>\<close>

text \<open>
  \<^verbatim>\<open>std::stoi\<close>: leading white space, an optional sign, decimal digits; the rest of
  the string is ignored. It throws \<^verbatim>\<open>invalid_argument\<close> when there is no digit and
  \<^verbatim>\<open>out_of_range\<close> when the value does not fit an \<^verbatim>\<open>int\<close> (32 bits).
\<close>

definition stoi :: "string \<Rightarrow> stoi_error + int" where
  "stoi str =
     (let s = dropWhile isspace str;
          negative = (s \<noteq> [] \<and> hd s = CHR ''-'');
          signed = (s \<noteq> [] \<and> (hd s = CHR ''-'' \<or> hd s = CHR ''+''));
          ds = takeWhile isdigit (if signed then tl s else s);
          v = (if negative then - int (decimal_value ds) else int (decimal_value ds))
      in if ds = [] then Inl invalid_argument
         else if v < - 2147483648 \<or> 2147483647 < v then Inl out_of_range
         else Inr v)"

definition print_usage :: "string list" where
  "print_usage = [''Usage : find_weak_outputs_skein cpunum'', ''  cpunum : CPU cores'']"

definition print_version :: "string list" where
  "print_version = [''version: '' @ version]"

text \<open>
  The head of \<^verbatim>\<open>main\<close>, up to \<^verbatim>\<open>assert(cpu_num > 0)\<close>. \<open>argv\<close> is the whole
  argument vector, the program name first. The result is \<open>Inl\<close> of how the process
  stopped and what it printed on the standard output, or \<open>Inr cpu_num\<close> when it goes
  on to start the workers. An exception thrown by \<^verbatim>\<open>stoi\<close> is not caught. The
  \<^verbatim>\<open>int\<close> returned by \<^verbatim>\<open>stoi\<close> is converted to \<^verbatim>\<open>unsigned\<close>, modulo \<open>2^32\<close>.
\<close>

definition main_args :: "string list \<Rightarrow> (halt \<times> string list) + nat" where
  "main_args argv =
     (if length argv = 2 \<and> argv ! 1 = ''-h'' then Inl (EXIT_SUCCESS, print_usage)
      else if length argv = 2 \<and> argv ! 1 = ''-v'' then Inl (EXIT_SUCCESS, print_version)
      else if length argv < 2 then Inl (EXIT_FAILURE, print_usage)
      else case stoi (argv ! 1) of
             Inl e \<Rightarrow> Inl (UNCAUGHT e, [])
           | Inr v \<Rightarrow>
               let cpu_num = nat (v mod 2 ^ 32) in
               if \<not> cpu_num > 0 then Inl (ASSERT_FAILED, []) else Inr cpu_num)"

section \<open>Properties\<close>

subsection \<open>Substring search\<close>

lemma find_from_None: "find_from pat s k = None \<longleftrightarrow> \<not> sublist pat s"
proof (induction s arbitrary: k)
  case Nil
  then show ?case by simp
next
  case (Cons c cs)
  then show ?case by (simp add: sublist_Cons_right)
qed

lemma str_find_None: "str_find str pat = None \<longleftrightarrow> \<not> sublist pat str"
  by (simp add: str_find_def find_from_None)

lemma str_find_Some: "(\<exists>k. str_find str pat = Some k) \<longleftrightarrow> sublist pat str"
  using str_find_None [of str pat] by (cases "str_find str pat") simp_all

subsection \<open>Verdict classification\<close>

text \<open>
  C7. \<^verbatim>\<open>read_solver_result\<close> scans the result log line by line and returns at the
  first line that contains the satisfiable or the unsatisfiable marker: \<open>SAT\<close> when
  that line contains \<^verbatim>\<open>s SATISFIABLE\<close>, \<open>UNSAT\<close> otherwise. When no line contains
  a marker it returns \<open>INTERR\<close> (inconclusive), which is an ordinary return value.
  When the log cannot be opened the process stops with \<^verbatim>\<open>exit(EXIT_FAILURE)\<close>.
\<close>

theorem read_solver_result_first_marker:
  "read_solver_result None = Inl EXIT_FAILURE \<and>
   read_solver_result (Some lines) =
     Inr (case find (\<lambda>l. sublist ''s SATISFIABLE'' l \<or> sublist ''s UNSATISFIABLE'' l) lines of
            None \<Rightarrow> INTERR
          | Some l \<Rightarrow> if sublist ''s SATISFIABLE'' l then SAT else UNSAT)"
proof -
  have "scan_result lines =
     (case find (\<lambda>l. sublist ''s SATISFIABLE'' l \<or> sublist ''s UNSATISFIABLE'' l) lines of
        None \<Rightarrow> INTERR
      | Some l \<Rightarrow> if sublist ''s SATISFIABLE'' l then SAT else UNSAT)"
    by (induction lines) (simp_all add: str_find_None str_find_Some)
  then show ?thesis
    by (simp add: read_solver_result_def)
qed

theorem read_solver_result_first_marker_witness:
  "read_solver_result (Some [''c kissat'', ''s UNSATISFIABLE'', ''s SATISFIABLE'']) = Inr UNSAT
   \<and> read_solver_result (Some [''c kissat'', ''c caught signal'']) = Inr INTERR
   \<and> read_solver_result None = Inl EXIT_FAILURE"
  using read_solver_result_first_marker
          [of "[''c kissat'', ''s UNSATISFIABLE'', ''s SATISFIABLE'']"]
        read_solver_result_first_marker [of "[''c kissat'', ''c caught signal'']"]
  by (simp add: sublist_Cons_right)

subsection \<open>Candidates\<close>

lemma to_string_digit: "n < 10 \<Longrightarrow> to_string n = [digit_char n]"
  by (simp add: to_string.simps)

lemma int_to_string_bit:
  "rand = 1 \<or> rand = 0 \<Longrightarrow> int_to_string rand = [if rand = 1 then CHR ''1'' else CHR ''0'']"
  by (auto simp: int_to_string_def to_string_digit digit_char_def)

lemma draw_bits_shape:
  "draw_bits draw n rng = (bs, rng') \<Longrightarrow> length bs = n \<and> set bs \<subseteq> {CHR ''0'', CHR ''1''}"
proof (induction n arbitrary: rng bs rng')
  case 0
  then show ?case by simp
next
  case (Suc n)
  obtain rand rng1 where d: "draw rng = (rand, rng1)"
    by (cases "draw rng")
  obtain cs rng2 where r: "draw_bits draw n rng1 = (cs, rng2)"
    by (cases "draw_bits draw n rng1")
  from Suc.prems d r have "bs = (if rand = 1 then CHR ''1'' else CHR ''0'') # cs"
    by simp
  with Suc.IH [OF r] show ?case
    by auto
qed

lemma length_draw_bits: "length (fst (draw_bits draw n rng)) = n"
  using draw_bits_shape [of draw n rng] by (cases "draw_bits draw n rng") simp

text \<open>
  The inner loop, started at index \<open>i\<close>, appends the next \<open>SUBSEQ_LEN_1 - i\<close> draws to
  the stream and their complements to the inverse string; its assertion never fails when
  the distribution keeps its contract (every draw is 0 or 1).
\<close>

lemma draw_loop_bits:
  assumes contract: "\<forall>g. fst (draw g) = 1 \<or> fst (draw g) = 0"
  shows "i \<le> SUBSEQ_LEN_1 \<Longrightarrow> draw_loop draw i rng s iv =
     (case draw_bits draw (SUBSEQ_LEN_1 - i) rng of (bs, rng') \<Rightarrow>
        Inr (s @ bs, iv @ map complement_bit bs, rng'))"
  using contract
proof (induction draw i rng s iv rule: draw_loop.induct)
  case (1 draw i rng sstream8 inverse_bools_str)
  show ?case
  proof (cases "i < SUBSEQ_LEN_1")
    case True
    obtain rand rng1 where d: "draw rng = (rand, rng1)"
      by (cases "draw rng")
    from "1.prems"(2) d have ok: "rand = 1 \<or> rand = 0"
      by (metis fst_conv)
    from True have le: "i + 1 \<le> SUBSEQ_LEN_1"
      by simp
    from True have suc: "SUBSEQ_LEN_1 - i = Suc (SUBSEQ_LEN_1 - (i + 1))"
      by simp
    obtain bs rng2 where rest: "draw_bits draw (SUBSEQ_LEN_1 - (i + 1)) rng1 = (bs, rng2)"
      by (cases "draw_bits draw (SUBSEQ_LEN_1 - (i + 1)) rng1")
    have "draw_loop draw i rng sstream8 inverse_bools_str =
            draw_loop draw (i + 1) rng1 (sstream8 @ int_to_string rand)
              (inverse_bools_str @ (if rand = 1 then ''0'' else ''1''))"
      using True d ok by (simp add: draw_loop.simps [of draw i])
    also have "\<dots> = Inr ((sstream8 @ int_to_string rand) @ bs,
        (inverse_bools_str @ (if rand = 1 then ''0'' else ''1'')) @ map complement_bit bs, rng2)"
      using "1.IH" [OF True d [symmetric] ok le "1.prems"(2)] rest by simp
    finally show ?thesis
      using ok d rest by (auto simp: suc int_to_string_bit complement_bit_def)
  next
    case False
    with "1.prems" have "i = SUBSEQ_LEN_1"
      by simp
    then show ?thesis
      by (subst draw_loop.simps) simp
  qed
qed

text \<open>
  The do-while loop, entered with \<open>16 * (n + 1)\<close> characters still missing, appends
  \<open>n + 1\<close> blocks and stops.
\<close>

lemma block_loop_blocks:
  assumes contract: "\<forall>g. fst (draw g) = 1 \<or> fst (draw g) = 0"
  shows "length s + 16 * Suc n = SEQ_LEN \<Longrightarrow> block_loop draw rng s =
     (case draw_blocks draw (Suc n) rng of (bs, rng') \<Rightarrow>
        Inr (s @ concat (map (\<lambda>b. b @ map complement_bit b) bs), rng'))"
proof (induction n arbitrary: rng s)
  case 0
  obtain b rng1 where b: "draw_bits draw 8 rng = (b, rng1)"
    by (cases "draw_bits draw 8 rng")
  with length_draw_bits [of draw 8 rng] have len: "length b = 8"
    by simp
  have "draw_loop draw 0 rng s [] = Inr (s @ b, map complement_bit b, rng1)"
    using draw_loop_bits [OF contract, of 0 rng s "[]"] b by (simp add: SUBSEQ_LEN_1_def)
  then show ?case
    using 0 b len by (subst block_loop.simps) simp
next
  case (Suc n)
  obtain b rng1 where b: "draw_bits draw 8 rng = (b, rng1)"
    by (cases "draw_bits draw 8 rng")
  with length_draw_bits [of draw 8 rng] have len: "length b = 8"
    by simp
  have step: "draw_loop draw 0 rng s [] = Inr (s @ b, map complement_bit b, rng1)"
    using draw_loop_bits [OF contract, of 0 rng s "[]"] b by (simp add: SUBSEQ_LEN_1_def)
  from Suc.prems len have next_len: "length ((s @ b) @ map complement_bit b) + 16 * Suc n = SEQ_LEN"
    by simp
  have "block_loop draw rng s = block_loop draw rng1 ((s @ b) @ map complement_bit b)"
    using step Suc.prems len by (subst block_loop.simps) simp
  also note Suc.IH [OF next_len, of rng1]
  finally show ?case
    using b by (simp split: prod.splits)
qed

lemma draw_blocks_shape:
  "draw_blocks draw n rng = (bs, rng') \<Longrightarrow>
     length bs = n \<and> (\<forall>b \<in> set bs. length b = 8 \<and> set b \<subseteq> {CHR ''0'', CHR ''1''})"
proof (induction n arbitrary: rng bs rng')
  case 0
  then show ?case by simp
next
  case (Suc n)
  obtain b rng1 where b: "draw_bits draw 8 rng = (b, rng1)"
    by (cases "draw_bits draw 8 rng")
  obtain cs rng2 where r: "draw_blocks draw n rng1 = (cs, rng2)"
    by (cases "draw_blocks draw n rng1")
  from Suc.prems b r have "bs = b # cs"
    by simp
  with Suc.IH [OF r] draw_bits_shape [OF b] show ?case
    by auto
qed

lemma length_concat_blocks:
  "\<forall>b \<in> set bs. length b = 8 \<Longrightarrow>
     length (concat (map (\<lambda>b. b @ map complement_bit b) bs)) = 16 * length bs"
  by (induction bs) simp_all

lemma rand_seq8_blocks:
  assumes contract: "\<forall>g. fst (draw g) = 1 \<or> fst (draw g) = 0"
    and blocks: "draw_blocks draw 32 rng = (bs, rng')"
  shows "rand_seq8 draw rng = Inr (concat (map (\<lambda>b. b @ map complement_bit b) bs), rng')"
proof -
  have "length ([] :: string) + 16 * Suc 31 = SEQ_LEN"
    by (simp add: SEQ_LEN_def)
  from block_loop_blocks [OF contract this, of rng] blocks
  have loop: "block_loop draw rng [] =
      Inr (concat (map (\<lambda>b. b @ map complement_bit b) bs), rng')"
    by simp
  from draw_blocks_shape [OF blocks] length_concat_blocks [of bs]
  have "length (concat (map (\<lambda>b. b @ map complement_bit b) bs)) = SEQ_LEN"
    by (simp add: SEQ_LEN_def)
  with loop show ?thesis
    by (simp add: rand_seq8_def)
qed

lemma length_concat_replicate: "length (concat (replicate n xs)) = n * length xs"
  by (induction n) simp_all

lemma alternating_contract: "\<forall>g. fst (alternating g) = 1 \<or> fst (alternating g) = 0"
  by (auto simp: alternating_def)

lemma alternating_blocks: "draw_blocks alternating 32 False = (replicate 32 ''01010101'', False)"
  by code_simp

text \<open>
  C5, as the claim states it, fails: the candidate drawn from the sample source is 32
  blocks of 16 characters, 512 characters in all, so there is no room for 64 blocks of
  16 characters.
\<close>

theorem rand_seq8_not_64_blocks:
  "rand_seq8 alternating False = Inr (concat (replicate 32 ''0101010110101010''), False)
   \<and> length (concat (replicate 32 ''0101010110101010'')) = 32 * 16
   \<and> \<not> 64 * 16 \<le> length (concat (replicate 32 ''0101010110101010''))"
proof -
  have "rand_seq8 alternating False =
      Inr (concat (map (\<lambda>b. b @ map complement_bit b) (replicate 32 ''01010101'')), False)"
    by (rule rand_seq8_blocks [OF alternating_contract alternating_blocks])
  moreover have "concat (map (\<lambda>b. b @ map complement_bit b) (replicate 32 ''01010101''))
      = concat (replicate 32 ''0101010110101010'')"
    by (simp add: complement_bit_def)
  ultimately show ?thesis
    by (simp add: length_concat_replicate)
qed

text \<open>
  C5, amended: when every draw is 0 or 1 (the contract of
  \<^verbatim>\<open>uniform_int_distribution<int>(0, 1)\<close>), \<^verbatim>\<open>rand_seq8\<close> returns, with no assertion
  failing, a string of exactly 512 bit characters made of 32 consecutive 16-character
  blocks; the first 8 characters of each block are the next 8 draws and the last 8 are
  their complements.
\<close>

theorem rand_seq8_candidate:
  assumes "\<forall>g. fst (draw g) = 1 \<or> fst (draw g) = 0"
  shows "\<exists>bs rng'.
     draw_blocks draw 32 rng = (bs, rng') \<and>
     rand_seq8 draw rng = Inr (concat (map (\<lambda>b. b @ map complement_bit b) bs), rng') \<and>
     length bs = 32 \<and>
     (\<forall>b \<in> set bs. length b = 8 \<and> set b \<subseteq> {CHR ''0'', CHR ''1''}) \<and>
     length (concat (map (\<lambda>b. b @ map complement_bit b) bs)) = 512"
proof -
  obtain bs rng' where blocks: "draw_blocks draw 32 rng = (bs, rng')"
    by (cases "draw_blocks draw 32 rng")
  note shape = draw_blocks_shape [OF blocks]
  with length_concat_blocks [of bs]
  have "length (concat (map (\<lambda>b. b @ map complement_bit b) bs)) = 512"
    by simp
  with blocks shape rand_seq8_blocks [OF assms blocks] show ?thesis
    by blast
qed

theorem rand_seq8_candidate_witness:
  "(\<forall>g. fst (alternating g) = 1 \<or> fst (alternating g) = 0) \<and>
   rand_seq8 alternating False =
     Inr (concat (map (\<lambda>b. b @ map complement_bit b) (replicate 32 ''01010101'')), False)"
proof -
  from rand_seq8_candidate [OF alternating_contract, of False]
  obtain bs rng' where blocks: "draw_blocks alternating 32 False = (bs, rng')"
    and out: "rand_seq8 alternating False =
      Inr (concat (map (\<lambda>b. b @ map complement_bit b) bs), rng')"
    by blast
  from blocks have "bs = replicate 32 ''01010101''" and "rng' = False"
    by (simp_all add: alternating_blocks)
  with out alternating_contract show ?thesis
    by blast
qed

subsection \<open>Instance materialization\<close>




lemma unit_clause_in_range:
  assumes "length cand \<le> V" and "V \<le> UINT_MAX" and "i < length cand"
  shows "unit_clause V cand i =
     (if cand ! i = CHR ''0'' then ''-'' else []) @ to_string (V - length cand + 1 + i) @ '' 0''"
proof -
  let ?v = "int V - int (length cand) + 1 + int i"
  from assms have "0 \<le> ?v" and "?v < SIZE_MODULUS"
    by (simp_all add: UINT_MAX_def SIZE_MODULUS_def)
  then have "?v mod SIZE_MODULUS = ?v"
    by simp
  moreover from assms have "nat ?v = V - length cand + 1 + i"
    by simp
  ultimately show ?thesis
    by (simp add: unit_clause_def)
qed

lemma gen_rand_cnf_valid:
  assumes "read_template (read_lines fs (template_name operat_num)) 0 [] = (V, cls)"
    and "0 < V" and "cls \<noteq> []"
  shows "gen_rand_cnf cand operat_num seed fs =
     Inr (rand_cnf_name operat_num seed,
          (''p cnf '' @ to_string V @ '' '' @ to_string (length cls + length cand))
          # cls @ map (unit_clause V cand) [0..<length cand])"
  using assms by (simp add: gen_rand_cnf_def)

lemma gen_rand_cnf_invalid:
  assumes "read_template (read_lines fs (template_name operat_num)) 0 [] = (V, cls)"
    and "V = 0 \<or> cls = []"
  shows "gen_rand_cnf cand operat_num seed fs = Inl ASSERT_FAILED"
  using assms by (auto simp: gen_rand_cnf_def)


lemma read_template_clauses:
  "\<forall>l \<in> set lines. l = [] \<or> (hd l \<noteq> CHR ''c'' \<and> hd l \<noteq> CHR ''p'') \<Longrightarrow>
     read_template lines v acc = (v, acc @ lines)"
  by (induction lines v acc rule: read_template.induct) auto

lemma sample_template_read:
  "read_template (read_lines (sample_files sample_template) (template_name 3)) 0 [] =
     (600, replicate 50 ''1 -2 0'')"
  by (simp add: read_lines_def sample_files_def sample_template_def header_var_num_def
      extract_word_def isspace_def read_unsigned_def isdigit_def decimal_value_def
      digit_value_def UINT_MAX_def read_template_clauses)






lemma scenario_units:
  assumes "length rest = 504"
  shows "map (unit_clause 600 (''10110100'' @ rest)) [0..<512] =
     [''89 0'', ''-90 0'', ''91 0'', ''92 0'', ''-93 0'', ''94 0'', ''-95 0'', ''-96 0'']
     @ map (\<lambda>i. (if rest ! i = CHR ''0'' then ''-'' else []) @ to_string (97 + i) @ '' 0'')
         [0..<504]"
proof -
  let ?cand = "''10110100'' @ rest"
  have len: "length ?cand = 512"
    using assms by simp
  have split: "[0..<512] = [0, 1, 2, 3, 4, 5, 6, 7] @ map (\<lambda>i. i + 8) [0..<504]"
  proof -
    have "[0..<8 + 504] = [0..<8] @ [8..<8 + 504]"
      by (rule upt_add_eq_append) simp
    moreover have "[0..<8] = [0, 1, 2, 3, 4, 5, 6, 7]"
      by (simp add: upt_rec)
    moreover have "map (\<lambda>i. i + 8) [0..<504] = [8..<8 + 504]"
      using map_add_upt [of 8 504] by simp
    ultimately show ?thesis
      by simp
  qed
  have head: "map (unit_clause 600 ?cand) [0, 1, 2, 3, 4, 5, 6, 7] =
      [''89 0'', ''-90 0'', ''91 0'', ''92 0'', ''-93 0'', ''94 0'', ''-95 0'', ''-96 0'']"
    using assms
    by (simp add: unit_clause_def SIZE_MODULUS_def to_string.simps digit_char_def)
  have tail: "unit_clause 600 ?cand (i + 8) =
      (if rest ! i = CHR ''0'' then ''-'' else []) @ to_string (97 + i) @ '' 0''"
    if "i < 504" for i
  proof -
    from that len have "unit_clause 600 ?cand (i + 8) =
        (if ?cand ! (i + 8) = CHR ''0'' then ''-'' else []) @
        to_string (600 - length ?cand + 1 + (i + 8)) @ '' 0''"
      by (intro unit_clause_in_range) (simp_all add: UINT_MAX_def)
    moreover have "?cand ! (i + 8) = rest ! i"
      using nth_append_length_plus [of "''10110100''" rest i] by (simp add: add.commute)
    moreover have "600 - length ?cand + 1 + (i + 8) = 97 + i"
      using len by simp
    ultimately show ?thesis
      by simp
  qed
  show ?thesis
    unfolding split map_append head
    using tail by (simp add: comp_def)
qed

text \<open>
  C8, amended: for a stage-3 template with 600 variables and 50 base clauses and a
  candidate starting \<^verbatim>\<open>10110100\<close>, the header line is \<^verbatim>\<open>p cnf 600 562\<close> and,
  right after the 50 template clauses, the unit clauses are \<^verbatim>\<open>89 0\<close>, \<^verbatim>\<open>-90 0\<close>,
  \<^verbatim>\<open>91 0\<close>, \<^verbatim>\<open>92 0\<close>, \<^verbatim>\<open>-93 0\<close>, \<^verbatim>\<open>94 0\<close>, \<^verbatim>\<open>-95 0\<close>, \<^verbatim>\<open>-96 0\<close> and so on:
  the bits map to the variables 89 to 600, negative literal for bit 0 and positive
  literal for bit 1.
\<close>

theorem gen_rand_cnf_scenario:
  assumes "read_template (read_lines fs (template_name 3)) 0 [] = (600, cls)"
    and "length cls = 50" and "length rest = 504"
  shows "gen_rand_cnf (''10110100'' @ rest) 3 seed fs =
     Inr (rand_cnf_name 3 seed,
          ''p cnf 600 562'' # cls
          @ [''89 0'', ''-90 0'', ''91 0'', ''92 0'', ''-93 0'', ''94 0'', ''-95 0'', ''-96 0'']
          @ map (\<lambda>i. (if rest ! i = CHR ''0'' then ''-'' else []) @ to_string (97 + i) @ '' 0'')
              [0..<504])"
proof -
  from assms(2) have "cls \<noteq> []"
    by auto
  from gen_rand_cnf_valid [OF assms(1) _ this, of "''10110100'' @ rest" seed]
  show ?thesis
    using assms(2,3) scenario_units [OF assms(3)]
    by (simp add: to_string.simps digit_char_def)
qed

theorem gen_rand_cnf_scenario_witness:
  "read_template (read_lines (sample_files sample_template) (template_name 3)) 0 [] =
     (600, replicate 50 ''1 -2 0'') \<and>
   gen_rand_cnf sample_candidate 3 0 (sample_files sample_template) =
     Inr (rand_cnf_name 3 0,
          ''p cnf 600 562'' # replicate 50 ''1 -2 0''
          @ [''89 0'', ''-90 0'', ''91 0'', ''92 0'', ''-93 0'', ''94 0'', ''-95 0'', ''-96 0'']
          @ map (\<lambda>i. ''-'' @ to_string (97 + i) @ '' 0'') [0..<504])"
  using gen_rand_cnf_scenario [OF sample_template_read, of "replicate 504 (CHR ''0'')" 0]
  by (simp add: sample_template_read sample_candidate_def)

text \<open>
  C8, as the claim states it, fails: the candidate starts with bit 1, then bit 0, so the
  first two unit clauses are \<^verbatim>\<open>89 0\<close> and \<^verbatim>\<open>-90 0\<close>, not \<^verbatim>\<open>-89 0\<close> and
  \<^verbatim>\<open>90 0\<close>.
\<close>

theorem gen_rand_cnf_scenario_first_clauses:
  "gen_rand_cnf sample_candidate 3 0 (sample_files sample_template) =
     Inr (rand_cnf_name 3 0,
          ''p cnf 600 562'' # replicate 50 ''1 -2 0''
          @ map (unit_clause 600 sample_candidate) [0..<512]) \<and>
   map (unit_clause 600 sample_candidate) [0..<5] =
     [''89 0'', ''-90 0'', ''91 0'', ''92 0'', ''-93 0''] \<and>
   map (unit_clause 600 sample_candidate) [0..<5] \<noteq>
     [''-89 0'', ''90 0'', ''91 0'', ''92 0'', ''-93 0'']"
proof -
  have "gen_rand_cnf sample_candidate 3 0 (sample_files sample_template) =
     Inr (rand_cnf_name 3 0,
          ''p cnf 600 562'' # replicate 50 ''1 -2 0''
          @ map (unit_clause 600 sample_candidate) [0..<512])"
    using gen_rand_cnf_valid [OF sample_template_read, of sample_candidate 0]
    by (simp add: sample_candidate_def to_string.simps digit_char_def)
  moreover have "map (unit_clause 600 sample_candidate) [0..<5] =
     [''89 0'', ''-90 0'', ''91 0'', ''92 0'', ''-93 0'']"
    by (simp add: upt_rec sample_candidate_def unit_clause_def SIZE_MODULUS_def
        to_string.simps digit_char_def)
  ultimately show ?thesis
    by simp
qed

subsection \<open>Command line\<close>

lemma stoi_abc: "stoi ''abc'' = Inl invalid_argument"
  by (simp add: stoi_def isspace_def isdigit_def)

lemma stoi_zero: "stoi ''0'' = Inr 0"
  by (simp add: stoi_def isspace_def isdigit_def decimal_value_def digit_value_def)

lemma stoi_twelve: "stoi ''12'' = Inr 12"
  by (simp add: stoi_def isspace_def isdigit_def decimal_value_def digit_value_def)

text \<open>
  C9, as the claim states it, fails for an invalid argument: a non-numeric argument
  ends the process by the uncaught exception of \<^verbatim>\<open>stoi\<close>, and the argument \<^verbatim>\<open>0\<close>
  by the failed assertion; neither prints the usage text nor exits with
  \<^verbatim>\<open>EXIT_FAILURE\<close>.
\<close>

theorem main_args_invalid_no_usage:
  "main_args [''find_weak_outputs_skein'', ''abc''] = Inl (UNCAUGHT invalid_argument, []) \<and>
   main_args [''find_weak_outputs_skein'', ''0''] = Inl (ASSERT_FAILED, []) \<and>
   main_args [''find_weak_outputs_skein'', ''abc''] \<noteq> Inl (EXIT_FAILURE, print_usage)"
  by (simp add: main_args_def stoi_abc stoi_zero)

text \<open>
  C9, amended: the single argument \<^verbatim>\<open>-h\<close> prints the usage text and exits with
  success; the single argument \<^verbatim>\<open>-v\<close> prints the version string and exits with
  success; a missing argument prints the usage text and exits with failure. With an
  argument present (and not a lone \<^verbatim>\<open>-h\<close> or \<^verbatim>\<open>-v\<close>) nothing is printed: the
  process ends by an uncaught exception when \<^verbatim>\<open>stoi\<close> rejects the argument, by a
  failed assertion when the number converts to 0, and otherwise goes on with that
  worker count.
\<close>

theorem main_args_cases:
  "main_args [prog, ''-h''] = Inl (EXIT_SUCCESS, print_usage) \<and>
   main_args [prog, ''-v''] = Inl (EXIT_SUCCESS, [''version: 0.0.2'']) \<and>
   (length argv < 2 \<longrightarrow> main_args argv = Inl (EXIT_FAILURE, print_usage)) \<and>
   (2 \<le> length argv \<and> \<not> (length argv = 2 \<and> argv ! 1 \<in> {''-h'', ''-v''}) \<longrightarrow>
      main_args argv =
        (case stoi (argv ! 1) of
           Inl e \<Rightarrow> Inl (UNCAUGHT e, [])
         | Inr v \<Rightarrow> if v mod 2 ^ 32 = 0 then Inl (ASSERT_FAILED, [])
                    else Inr (nat (v mod 2 ^ 32))))"
  by (auto simp: main_args_def print_version_def version_def Let_def split: sum.splits)

theorem main_args_cases_witness:
  "main_args [''find_weak_outputs_skein''] = Inl (EXIT_FAILURE, print_usage) \<and>
   main_args [''find_weak_outputs_skein'', ''12''] = Inr 12 \<and>
   main_args [''find_weak_outputs_skein'', ''-h''] = Inl (EXIT_SUCCESS, print_usage)"
  using main_args_cases [of "''find_weak_outputs_skein''" "[''find_weak_outputs_skein'']"]
    main_args_cases [of "''find_weak_outputs_skein''" "[''find_weak_outputs_skein'', ''12'']"]
  by (simp add: stoi_twelve)

subsection \<open>The stage loop\<close>

lemma stages_run_append: "stages_run (xs @ ys) = stages_run xs @ stages_run ys"
  by (induction xs rule: stages_run.induct) simp_all

lemma unsat_verdicts_append: "unsat_verdicts (xs @ ys) = unsat_verdicts xs + unsat_verdicts ys"
  by (induction xs rule: unsat_verdicts.induct) simp_all

lemma stage_body_cases [consumes 1, case_names Pruned Inconclusive Too_Many Next]:
  assumes "stage_body m stage n e = Inr e'"
  obtains
    (Pruned) "0 < m" and "m \<le> cur_total_runtime e"
      and "cur_total_runtime e' = cur_total_runtime e" and "unsat_inst e' = unsat_inst e"
      and "is_break e'"
      and "trace e' = trace e @ [WRITE_TO_OUTPUT (LOG_PRUNED (cur_total_runtime e) m)]"
  | (Inconclusive) t where "\<not> (0 < m \<and> m \<le> cur_total_runtime e)"
      and "stage n = Inr (INTERR, t)"
      and "cur_total_runtime e' = cur_total_runtime e + t" and "unsat_inst e' = unsat_inst e"
      and "is_break e'"
      and "trace e' = trace e @ [STAGE_RUN n INTERR t]"
  | (Too_Many) res t where "\<not> (0 < m \<and> m \<le> cur_total_runtime e)"
      and "stage n = Inr (res, t)" and "res \<noteq> INTERR"
      and "unsat_inst e' > MAX_UNSAT_INST"
      and "cur_total_runtime e' = cur_total_runtime e + t"
      and "unsat_inst e' = unsat_inst e + (if res = UNSAT then 1 else 0)"
      and "is_break e'"
      and "trace e' = trace e @ [STAGE_RUN n res t,
             WRITE_TO_OUTPUT (LOG_TOO_MANY_UNSAT (unsat_inst e') MAX_UNSAT_INST)]"
  | (Next) res t where "\<not> (0 < m \<and> m \<le> cur_total_runtime e)"
      and "stage n = Inr (res, t)" and "res \<noteq> INTERR"
      and "unsat_inst e' \<le> MAX_UNSAT_INST"
      and "cur_total_runtime e' = cur_total_runtime e + t"
      and "unsat_inst e' = unsat_inst e + (if res = UNSAT then 1 else 0)"
      and "is_break e' = is_break e"
      and "trace e' = trace e @ [STAGE_RUN n res t,
             WRITE_TO_OUTPUT (LOG_STAGE n (unsat_inst e') t (cur_total_runtime e'))]"
proof (cases "0 < m \<and> m \<le> cur_total_runtime e")
  case True
  with assms have "e' = e\<lparr>is_break := True,
      trace := trace e @ [WRITE_TO_OUTPUT (LOG_PRUNED (cur_total_runtime e) m)]\<rparr>"
    by (simp add: stage_body_def)
  with True Pruned show ?thesis
    by simp
next
  case no_prune: False
  with assms obtain res t where st: "stage n = Inr (res, t)"
    by (cases "stage n") (auto simp: stage_body_def)
  show ?thesis
  proof (cases "res = INTERR")
    case True
    with assms no_prune st have "e' = e\<lparr>cur_total_runtime := cur_total_runtime e + t,
        trace := trace e @ [STAGE_RUN n INTERR t], is_break := True\<rparr>"
      by (simp add: stage_body_def)
    with True no_prune st Inconclusive [of t] show ?thesis
      by simp
  next
    case verdict: False
    define u where "u = unsat_inst e + (if res = UNSAT then 1 else 0)"
    show ?thesis
    proof (cases "u > MAX_UNSAT_INST")
      case True
      with assms no_prune st verdict
      have "e' = e\<lparr>cur_total_runtime := cur_total_runtime e + t,
          trace := trace e @ [STAGE_RUN n res t,
            WRITE_TO_OUTPUT (LOG_TOO_MANY_UNSAT u MAX_UNSAT_INST)],
          unsat_inst := u, is_break := True\<rparr>"
        by (auto simp: stage_body_def Let_def u_def)
      with True no_prune st verdict Too_Many [of res t] show ?thesis
        by (simp add: u_def)
    next
      case False
      with assms no_prune st verdict
      have "e' = e\<lparr>cur_total_runtime := cur_total_runtime e + t,
          trace := trace e @ [STAGE_RUN n res t,
            WRITE_TO_OUTPUT (LOG_STAGE n u t (cur_total_runtime e + t))],
          unsat_inst := u\<rparr>"
        by (auto simp: stage_body_def Let_def u_def)
      with False no_prune st verdict Next [of res t] show ?thesis
        by (simp add: u_def)
    qed
  qed
qed

lemma stage_loop_past: "7 < n \<Longrightarrow> stage_loop m stage n e = Inr e"
  by (subst stage_loop.simps) simp

lemma stage_loop_halt:
  "n \<le> 7 \<Longrightarrow> stage_body m stage n e = Inl h \<Longrightarrow> stage_loop m stage n e = Inl h"
  by (subst stage_loop.simps) simp

lemma stage_loop_break:
  "n \<le> 7 \<Longrightarrow> stage_body m stage n e = Inr e' \<Longrightarrow> is_break e' \<Longrightarrow>
     stage_loop m stage n e = Inr e'"
  by (subst stage_loop.simps) simp

lemma stage_loop_next:
  "n \<le> 7 \<Longrightarrow> stage_body m stage n e = Inr e' \<Longrightarrow> \<not> is_break e' \<Longrightarrow>
     stage_loop m stage n e = stage_loop m stage (Suc n) e'"
  by (subst stage_loop.simps) simp

lemma entry_state_Suc:
  assumes "entry_state m stage (Suc k) = Some e'"
  obtains e where "entry_state m stage k = Some e"
    and "stage_body m stage (3 + k) e = Inr e'" and "\<not> is_break e'"
  using assms by (auto split: option.splits sum.splits if_splits)

lemma entry_invariant:
  "entry_state m stage k = Some e \<Longrightarrow>
     \<not> is_break e \<and> stages_run (trace e) = [3..<3 + k] \<and>
     unsat_inst e = unsat_verdicts (trace e) \<and> unsat_inst e \<le> MAX_UNSAT_INST \<and>
     \<not> list_ex is_pruned_line (trace e) \<and> \<not> list_ex is_too_many_unsat_line (trace e)"
proof (induction k arbitrary: e)
  case 0
  then show ?case
    by (auto simp: init_evaluation_def)
next
  case (Suc k)
  from Suc.prems obtain e0 where entry: "entry_state m stage k = Some e0"
    and body: "stage_body m stage (3 + k) e0 = Inr e" and go: "\<not> is_break e"
    by (rule entry_state_Suc)
  note inv = Suc.IH [OF entry]
  have upt: "[3..<4 + k] = [3..<3 + k] @ [3 + k]"
    using upt_Suc_append [of 3 "3 + k"] by simp
  from body go show ?case
  proof (cases rule: stage_body_cases)
    case (Next res t)
    with inv go show ?thesis
      by (cases res) (simp_all add: stages_run_append unsat_verdicts_append upt)
  qed simp_all
qed

lemma loop_from_entry:
  "entry_state m stage k = Some e \<Longrightarrow> k \<le> 5 \<Longrightarrow>
     stage_loop m stage 3 init_evaluation = stage_loop m stage (3 + k) e"
proof (induction k arbitrary: e)
  case 0
  then show ?case by simp
next
  case (Suc k)
  from Suc.prems(1) obtain e0 where entry: "entry_state m stage k = Some e0"
    and body: "stage_body m stage (3 + k) e0 = Inr e" and go: "\<not> is_break e"
    by (rule entry_state_Suc)
  from Suc.prems(2) have "3 + k \<le> 7" and "k \<le> 5"
    by simp_all
  with Suc.IH [OF entry] stage_loop_next [OF _ body go] show ?case
    by simp
qed

text \<open>
  How an evaluation ends: either it passed all five stages, or it left the loop in the
  body of some stage \<open>3 + k\<close>.
\<close>

lemma stage_loop_final_from:
  assumes "entry_state m stage j = Some e0" and "j + d = 5"
    and "stage_loop m stage (3 + j) e0 = Inr e'"
  shows "(entry_state m stage 5 = Some e' \<and> \<not> is_break e') \<or>
     (\<exists>k e. k < 5 \<and> entry_state m stage k = Some e \<and>
        stage_body m stage (3 + k) e = Inr e' \<and> is_break e')"
  using assms
proof (induction d arbitrary: j e0)
  case 0
  then have "j = 5"
    by simp
  with "0.prems" entry_invariant [of m stage 5 e0] show ?case
    by (simp add: stage_loop_past)
next
  case (Suc d)
  then have j: "j < 5" and le: "3 + j \<le> 7"
    by simp_all
  show ?case
  proof (cases "stage_body m stage (3 + j) e0")
    case (Inl h)
    with Suc.prems(3) stage_loop_halt [OF le Inl] show ?thesis
      by simp
  next
    case (Inr e1)
    show ?thesis
    proof (cases "is_break e1")
      case True
      with Suc.prems(3) stage_loop_break [OF le Inr] have "e' = e1"
        by simp
      with Suc.prems(1) Inr True j show ?thesis
        by blast
    next
      case False
      with Suc.prems(1) Inr have entry: "entry_state m stage (Suc j) = Some e1"
        by simp
      from Suc.prems(3) stage_loop_next [OF le Inr False]
      have "stage_loop m stage (3 + Suc j) e1 = Inr e'"
        by simp
      moreover from Suc.prems(2) have "Suc j + d = 5"
        by simp
      ultimately show ?thesis
        using Suc.IH [OF entry] by blast
    qed
  qed
qed

lemma stage_loop_final:
  assumes "stage_loop m stage 3 init_evaluation = Inr e'"
  shows "(entry_state m stage 5 = Some e' \<and> \<not> is_break e') \<or>
     (\<exists>k e. k < 5 \<and> entry_state m stage k = Some e \<and>
        stage_body m stage (3 + k) e = Inr e' \<and> is_break e')"
  using stage_loop_final_from [of m stage 0 init_evaluation 5 e'] assms by simp

lemma five_stages: "[3, 4, 5, 6, 7] = [3..<8]"
  by (simp add: upt_rec)

lemma strict_prefix_stages: "n \<le> 7 \<Longrightarrow> strict_prefix [3..<n] [3, 4, 5, 6, 7]"
proof -
  assume n: "n \<le> 7"
  show ?thesis
  proof (cases "3 \<le> n")
    case True
    with n have "[3..<8] = [3..<n] @ [n..<8]"
      using upt_add_eq_append [of 3 n "8 - n"] by simp
    moreover from n have "[n..<8] \<noteq> []"
      by simp
    ultimately show ?thesis
      unfolding five_stages by (metis append_Nil2 prefixI same_append_eq strict_prefix_def)
  next
    case False
    then show ?thesis
      by simp
  qed
qed

lemma no_pruned_line_append:
  "list_ex is_pruned_line (xs @ ys) \<longleftrightarrow> list_ex is_pruned_line xs \<or> list_ex is_pruned_line ys"
  by (auto simp: list_ex_iff)



lemma entry_trace_head:
  "entry_state m stage (Suc k) = Some e \<Longrightarrow>
     \<exists>res t rest. stage 3 = Inr (res, t) \<and> trace e = STAGE_RUN 3 res t # rest"
proof (induction k arbitrary: e)
  case 0
  then obtain e0 where "entry_state m stage 0 = Some e0"
    and body: "stage_body m stage (3 + 0) e0 = Inr e" and go: "\<not> is_break e"
    by (rule entry_state_Suc)
  then have e0: "e0 = init_evaluation"
    by simp
  from body go show ?case
    by (cases rule: stage_body_cases) (simp_all add: e0 init_evaluation_def)
next
  case (Suc k)
  from Suc.prems obtain e0 where entry: "entry_state m stage (Suc k) = Some e0"
    and body: "stage_body m stage (3 + Suc k) e0 = Inr e" and go: "\<not> is_break e"
    by (rule entry_state_Suc)
  from Suc.IH [OF entry] obtain res t rest
    where head: "stage 3 = Inr (res, t)" "trace e0 = STAGE_RUN 3 res t # rest"
    by blast
  from body go show ?case
    by (cases rule: stage_body_cases) (simp_all add: head)
qed

lemma body_trace_head:
  assumes "stage_body m stage (3 + k) e0 = Inr e" and "entry_state m stage k = Some e0"
  shows "\<exists>res t rest. stage 3 = Inr (res, t) \<and> trace e = STAGE_RUN 3 res t # rest"
proof (cases k)
  case 0
  with assms(2) have e0: "e0 = init_evaluation"
    by simp
  from assms(1) show ?thesis
    by (cases rule: stage_body_cases) (simp_all add: 0 e0 init_evaluation_def)
next
  case (Suc j)
  with entry_trace_head [of m stage j e0] assms(2) obtain res t rest
    where head: "stage 3 = Inr (res, t)" "trace e0 = STAGE_RUN 3 res t # rest"
    by blast
  from assms(1) show ?thesis
    by (cases rule: stage_body_cases) (simp_all add: head)
qed

lemma stage_three_run:
  assumes "stage_loop m stage 3 init_evaluation = Inr e"
  shows "\<exists>res t rest. stage 3 = Inr (res, t) \<and> trace e = STAGE_RUN 3 res t # rest"
  using stage_loop_final [OF assms]
proof (elim disjE exE conjE)
  assume "entry_state m stage 5 = Some e"
  then have "entry_state m stage (Suc 4) = Some e"
    by (simp add: eval_nat_numeral)
  then show ?thesis
    by (rule entry_trace_head)
next
  fix k e0
  assume "entry_state m stage k = Some e0" and "stage_body m stage (3 + k) e0 = Inr e"
  then show ?thesis
    by (intro body_trace_head)
qed

lemma stage_three_halt:
  assumes "stage 3 = Inl h"
  shows "stage_loop m stage 3 init_evaluation = Inl h"
proof -
  from assms have "stage_body m stage 3 init_evaluation = Inl h"
    by (simp add: stage_body_def init_evaluation_def)
  then show ?thesis
    by (intro stage_loop_halt) simp_all
qed

lemma stage_body_zero_bound: "stage_body 0 stage n e = stage_body (- 1) stage n e"
  by (simp add: stage_body_def)

lemma stage_loop_zero_bound: "stage_loop 0 stage n e = stage_loop (- 1) stage n e"
proof (induction "8 - n" arbitrary: n e)
  case 0
  then have "7 < n"
    by simp
  then show ?case
    by (simp add: stage_loop_past)
next
  case (Suc d)
  then have le: "n \<le> 7" and d: "d = 8 - Suc n"
    by simp_all
  show ?case
  proof (cases "stage_body 0 stage n e")
    case (Inl h)
    with le show ?thesis
      using stage_body_zero_bound [of stage n e] by (simp add: stage_loop_halt)
  next
    case (Inr e')
    with le Suc.hyps(1) [OF d, of e'] show ?thesis
      using stage_body_zero_bound [of stage n e]
      by (cases "is_break e'") (simp_all add: stage_loop_break stage_loop_next)
  qed
qed

lemma nonpositive_bound_never_prunes:
  assumes "stage_loop m stage 3 init_evaluation = Inr e" and "\<not> 0 < m"
  shows "\<not> list_ex is_pruned_line (trace e)"
  using stage_loop_final [OF assms(1)]
proof (elim disjE exE conjE)
  assume "entry_state m stage 5 = Some e"
  from entry_invariant [OF this] show ?thesis
    by simp
next
  fix k e0
  assume entry: "entry_state m stage k = Some e0"
    and body: "stage_body m stage (3 + k) e0 = Inr e"
  note inv = entry_invariant [OF entry]
  from body show ?thesis
    using inv assms(2) by (cases rule: stage_body_cases) (simp_all add: list_ex_iff)
qed

lemma stage_body_cong: "stage n = stage' n \<Longrightarrow> stage_body m stage n e = stage_body m stage' n e"
  by (simp add: stage_body_def)

lemma stage_loop_cong:
  "\<forall>j. n \<le> j \<and> j \<le> 7 \<longrightarrow> stage j = stage' j \<Longrightarrow>
     stage_loop m stage n e = stage_loop m stage' n e"
proof (induction "8 - n" arbitrary: n e)
  case 0
  then have "7 < n"
    by simp
  then show ?case
    by (simp add: stage_loop_past)
next
  case (Suc d)
  then have le: "n \<le> 7" and d: "d = 8 - Suc n"
    by simp_all
  from Suc.prems le have body: "stage_body m stage n e = stage_body m stage' n e"
    by (intro stage_body_cong) simp
  from Suc.prems have rest: "\<forall>j. Suc n \<le> j \<and> j \<le> 7 \<longrightarrow> stage j = stage' j"
    by simp
  show ?case
  proof (cases "stage_body m stage n e")
    case (Inl h)
    with body have "stage_body m stage' n e = Inl h"
      by simp
    with Inl le show ?thesis
      by (simp add: stage_loop_halt)
  next
    case (Inr e')
    with body have body': "stage_body m stage' n e = Inr e'"
      by simp
    show ?thesis
    proof (cases "is_break e'")
      case True
      with Inr body' le show ?thesis
        by (simp add: stage_loop_break)
    next
      case False
      with Inr body' le Suc.hyps(1) [OF d rest, of e'] show ?thesis
        by (simp add: stage_loop_next)
    qed
  qed
qed

lemma stage_three_inconclusive:
  assumes "stage 3 = Inr (INTERR, t)"
  shows "stage_loop m stage 3 init_evaluation =
     Inr \<lparr>cur_total_runtime = t, unsat_inst = 0, is_break = True,
          trace = [STAGE_RUN 3 INTERR t]\<rparr>"
proof -
  from assms have "stage_body m stage 3 init_evaluation =
      Inr \<lparr>cur_total_runtime = t, unsat_inst = 0, is_break = True,
           trace = [STAGE_RUN 3 INTERR t]\<rparr>"
    by (simp add: stage_body_def init_evaluation_def)
  then show ?thesis
    by (rule stage_loop_break [rotated]) simp_all
qed

lemma inconclusive_stage:
  assumes "entry_state m stage k = Some e0" and "k < 5"
    and "\<not> (0 < m \<and> m \<le> cur_total_runtime e0)" and "stage (3 + k) = Inr (INTERR, t)"
  shows "\<exists>e. stage_loop m stage 3 init_evaluation = Inr e \<and> abandoned_inconclusive e \<and>
     trace e = trace e0 @ [STAGE_RUN (3 + k) INTERR t] \<and>
     stages_run (trace e) = [3..<4 + k] \<and> unsat_inst e = unsat_inst e0"
proof -
  define e where "e = e0\<lparr>cur_total_runtime := cur_total_runtime e0 + t,
      trace := trace e0 @ [STAGE_RUN (3 + k) INTERR t], is_break := True\<rparr>"
  from assms(3,4) have body: "stage_body m stage (3 + k) e0 = Inr e"
    by (auto simp: stage_body_def e_def)
  from assms(2) have le: "3 + k \<le> 7" "k \<le> 5"
    by simp_all
  have "stage_loop m stage 3 init_evaluation = stage_loop m stage (3 + k) e0"
    by (rule loop_from_entry [OF assms(1) le(2)])
  also have "\<dots> = Inr e"
    by (rule stage_loop_break [OF le(1) body]) (simp add: e_def)
  finally have "stage_loop m stage 3 init_evaluation = Inr e" .
  moreover have "[3..<4 + k] = [3..<3 + k] @ [3 + k]"
    using upt_Suc_append [of 3 "3 + k"] by simp
  with entry_invariant [OF assms(1)] have "stages_run (trace e) = [3..<4 + k]"
    by (simp add: e_def stages_run_append)
  ultimately show ?thesis
    by (auto simp: e_def abandoned_inconclusive_def)
qed

text \<open>
  The counter \<^verbatim>\<open>unsat_inst\<close> against the verdicts of the solver: every stage run
  recorded in the events is a call of the solver with that verdict and runtime, and the
  counter on entry to stage \<open>3 + k\<close> is the number of unsatisfiable verdicts of the
  stages before it.
\<close>

lemma unsat_count_Suc:
  "3 \<le> n \<Longrightarrow> stage n = Inr (res, t) \<Longrightarrow>
     unsat_count stage (Suc n) = unsat_count stage n + (if res = UNSAT then 1 else 0)"
  by (simp add: unsat_count_def)

lemma unsat_count_mono: "i \<le> j \<Longrightarrow> unsat_count stage i \<le> unsat_count stage j"
proof (induction j)
  case 0
  then show ?case by simp
next
  case (Suc j)
  show ?case
  proof (cases "i = Suc j")
    case True
    then show ?thesis by simp
  next
    case False
    with Suc have "unsat_count stage i \<le> unsat_count stage j"
      by simp
    also have "\<dots> \<le> unsat_count stage (Suc j)"
      by (cases "3 \<le> j") (simp_all add: unsat_count_def)
    finally show ?thesis .
  qed
qed

lemma entry_verdicts:
  "entry_state m stage k = Some e \<Longrightarrow>
     unsat_inst e = unsat_count stage (3 + k) \<and>
     (\<forall>n res t. STAGE_RUN n res t \<in> set (trace e) \<longrightarrow> stage n = Inr (res, t))"
proof (induction k arbitrary: e)
  case 0
  then show ?case
    by (auto simp: init_evaluation_def unsat_count_def)
next
  case (Suc k)
  from Suc.prems obtain e0 where entry: "entry_state m stage k = Some e0"
    and body: "stage_body m stage (3 + k) e0 = Inr e" and go: "\<not> is_break e"
    by (rule entry_state_Suc)
  note inv = Suc.IH [OF entry]
  from body go show ?case
  proof (cases rule: stage_body_cases)
    case (Next res t)
    with inv unsat_count_Suc [of "3 + k" stage res t] show ?thesis
      by auto
  qed simp_all
qed

lemma upt_stage: "[3..<4 + k] = [3..<3 + k] @ [3 + k]"
  using upt_Suc_append [of 3 "3 + k"] by simp

lemma final_verdicts:
  assumes "stage_loop m stage 3 init_evaluation = Inr e"
  shows "(\<forall>n res t. STAGE_RUN n res t \<in> set (trace e) \<longrightarrow> stage n = Inr (res, t)) \<and>
     unsat_inst e = unsat_verdicts (trace e) \<and> unsat_inst e \<le> 4 \<and>
     (abandoned_too_many_unsat e \<longleftrightarrow> unsat_inst e = 4) \<and>
     (\<exists>n. 3 \<le> n \<and> n \<le> 8 \<and> stages_run (trace e) = [3..<n] \<and>
        unsat_inst e = unsat_count stage n \<and> (\<forall>j<n. unsat_count stage j \<le> 3) \<and>
        (unsat_inst e = 4 \<longrightarrow>
           (\<exists>pre t. 3 < n \<and> stage (n - 1) = Inr (UNSAT, t) \<and>
              unsat_count stage (n - 1) = 3 \<and> unsat_verdicts pre = 3 \<and>
              trace e = pre @ [STAGE_RUN (n - 1) UNSAT t,
                WRITE_TO_OUTPUT (LOG_TOO_MANY_UNSAT 4 3)])))"
  using stage_loop_final [OF assms]
proof (elim disjE exE conjE)
  assume entry: "entry_state m stage 5 = Some e" and go: "\<not> is_break e"
  note inv = entry_invariant [OF entry] and tie = entry_verdicts [OF entry]
  from inv have le3: "unsat_inst e \<le> 3"
    by (simp add: MAX_UNSAT_INST_def)
  from inv have run: "stages_run (trace e) = [3..<8]"
    by simp
  from tie have count: "unsat_inst e = unsat_count stage 8"
    by simp
  have below: "\<forall>j<8. unsat_count stage j \<le> 3"
  proof (intro allI impI)
    fix j :: nat
    assume "j < 8"
    then have "unsat_count stage j \<le> unsat_count stage 8"
      by (intro unsat_count_mono) simp
    with le3 count show "unsat_count stage j \<le> 3"
      by simp
  qed
  from le3 have not4: "unsat_inst e \<noteq> 4"
    by simp
  from go have "\<not> abandoned_too_many_unsat e"
    by (simp add: abandoned_too_many_unsat_def)
  moreover from run count below not4
  have "\<exists>n. 3 \<le> n \<and> n \<le> 8 \<and> stages_run (trace e) = [3..<n] \<and>
        unsat_inst e = unsat_count stage n \<and> (\<forall>j<n. unsat_count stage j \<le> 3) \<and>
        (unsat_inst e = 4 \<longrightarrow>
           (\<exists>pre t. 3 < n \<and> stage (n - 1) = Inr (UNSAT, t) \<and>
              unsat_count stage (n - 1) = 3 \<and> unsat_verdicts pre = 3 \<and>
              trace e = pre @ [STAGE_RUN (n - 1) UNSAT t,
                WRITE_TO_OUTPUT (LOG_TOO_MANY_UNSAT 4 3)]))"
    by (intro exI [of _ 8] conjI) simp_all
  moreover from le3 have "unsat_inst e \<le> 4"
    by simp
  ultimately show ?thesis
    using inv tie not4 by blast
next
  fix k e0
  assume k: "k < 5" and entry: "entry_state m stage k = Some e0"
    and body: "stage_body m stage (3 + k) e0 = Inr e" and brk: "is_break e"
  note inv = entry_invariant [OF entry] and tie = entry_verdicts [OF entry]
  from inv have le3: "unsat_inst e0 \<le> 3"
    by (simp add: MAX_UNSAT_INST_def)
  from tie have count0: "unsat_inst e0 = unsat_count stage (3 + k)"
    by simp
  from inv have verdicts0: "unsat_inst e0 = unsat_verdicts (trace e0)"
    by simp
  from inv have run0: "stages_run (trace e0) = [3..<3 + k]"
    by simp
  from inv have no_line: "\<not> list_ex is_too_many_unsat_line (trace e0)"
    by simp
  from tie have tie0: "\<forall>n res t. STAGE_RUN n res t \<in> set (trace e0) \<longrightarrow> stage n = Inr (res, t)"
    by simp
  have below: "\<forall>j<4 + k. unsat_count stage j \<le> 3"
  proof (intro allI impI)
    fix j
    assume "j < 4 + k"
    then have "unsat_count stage j \<le> unsat_count stage (3 + k)"
      by (intro unsat_count_mono) simp
    with le3 count0 show "unsat_count stage j \<le> 3"
      by simp
  qed
  then have below0: "\<forall>j<3 + k. unsat_count stage j \<le> 3"
    by simp
  from k have range: "3 \<le> 3 + k" "3 + k \<le> 8" "3 \<le> 4 + k" "4 + k \<le> 8"
    by simp_all
  from body show ?thesis
  proof (cases rule: stage_body_cases)
    case Pruned
    from Pruned(4) le3 have not4: "unsat_inst e \<noteq> 4" and le4: "unsat_inst e \<le> 4"
      by simp_all
    from Pruned(6) tie0
    have tied: "\<forall>n res t. STAGE_RUN n res t \<in> set (trace e) \<longrightarrow> stage n = Inr (res, t)"
      by simp
    from Pruned(4,6) verdicts0 have verdicts: "unsat_inst e = unsat_verdicts (trace e)"
      by (simp add: unsat_verdicts_append)
    from Pruned(6) no_line have "\<not> abandoned_too_many_unsat e"
      by (simp add: abandoned_too_many_unsat_def list_ex_iff)
    moreover from Pruned(6) run0 have "stages_run (trace e) = [3..<3 + k]"
      by (simp add: stages_run_append)
    with range(1,2) Pruned(4) count0 below0 not4
    have "\<exists>n. 3 \<le> n \<and> n \<le> 8 \<and> stages_run (trace e) = [3..<n] \<and>
        unsat_inst e = unsat_count stage n \<and> (\<forall>j<n. unsat_count stage j \<le> 3) \<and>
        (unsat_inst e = 4 \<longrightarrow>
           (\<exists>pre t. 3 < n \<and> stage (n - 1) = Inr (UNSAT, t) \<and>
              unsat_count stage (n - 1) = 3 \<and> unsat_verdicts pre = 3 \<and>
              trace e = pre @ [STAGE_RUN (n - 1) UNSAT t,
                WRITE_TO_OUTPUT (LOG_TOO_MANY_UNSAT 4 3)]))"
      by (intro exI [of _ "3 + k"] conjI) simp_all
    ultimately show ?thesis
      using tied verdicts le4 not4 by blast
  next
    case (Inconclusive t)
    from Inconclusive(4) le3 have not4: "unsat_inst e \<noteq> 4" and le4: "unsat_inst e \<le> 4"
      by simp_all
    from Inconclusive(2,6) tie0
    have tied: "\<forall>n res t. STAGE_RUN n res t \<in> set (trace e) \<longrightarrow> stage n = Inr (res, t)"
      by auto
    from Inconclusive(4,6) verdicts0 have verdicts: "unsat_inst e = unsat_verdicts (trace e)"
      by (simp add: unsat_verdicts_append)
    from unsat_count_Suc [of "3 + k" stage INTERR t] Inconclusive(2)
    have same: "unsat_count stage (4 + k) = unsat_count stage (3 + k)"
      by simp
    from Inconclusive(6) no_line have "\<not> abandoned_too_many_unsat e"
      by (simp add: abandoned_too_many_unsat_def list_ex_iff)
    moreover from Inconclusive(6) run0 have "stages_run (trace e) = [3..<4 + k]"
      by (simp add: stages_run_append upt_stage)
    with range(3,4) Inconclusive(4) count0 same below not4
    have "\<exists>n. 3 \<le> n \<and> n \<le> 8 \<and> stages_run (trace e) = [3..<n] \<and>
        unsat_inst e = unsat_count stage n \<and> (\<forall>j<n. unsat_count stage j \<le> 3) \<and>
        (unsat_inst e = 4 \<longrightarrow>
           (\<exists>pre t. 3 < n \<and> stage (n - 1) = Inr (UNSAT, t) \<and>
              unsat_count stage (n - 1) = 3 \<and> unsat_verdicts pre = 3 \<and>
              trace e = pre @ [STAGE_RUN (n - 1) UNSAT t,
                WRITE_TO_OUTPUT (LOG_TOO_MANY_UNSAT 4 3)]))"
      by (intro exI [of _ "4 + k"] conjI) simp_all
    ultimately show ?thesis
      using tied verdicts le4 not4 by blast
  next
    case (Too_Many res t)
    with le3 have res: "res = UNSAT" and three: "unsat_inst e0 = 3" and four: "unsat_inst e = 4"
      by (auto simp: MAX_UNSAT_INST_def split: if_splits)
    from Too_Many(2) res have verdict: "stage (3 + k) = Inr (UNSAT, t)"
      by simp
    from Too_Many(8) res four
    have tr: "trace e = trace e0 @ [STAGE_RUN (3 + k) UNSAT t,
        WRITE_TO_OUTPUT (LOG_TOO_MANY_UNSAT 4 3)]"
      by (simp add: MAX_UNSAT_INST_def)
    from tr verdict tie0
    have tied: "\<forall>n res t. STAGE_RUN n res t \<in> set (trace e) \<longrightarrow> stage n = Inr (res, t)"
      by auto
    from tr four three verdicts0 have verdicts: "unsat_inst e = unsat_verdicts (trace e)"
      by (simp add: unsat_verdicts_append)
    from unsat_count_Suc [of "3 + k" stage UNSAT t] verdict three count0
    have count: "unsat_count stage (4 + k) = 4" "unsat_count stage (3 + k) = 3"
      by simp_all
    from tr brk have abandoned: "abandoned_too_many_unsat e"
      by (simp add: abandoned_too_many_unsat_def)
    from three verdicts0 have pre: "unsat_verdicts (trace e0) = 3"
      by simp
    have last: "\<exists>pre t. 3 < 4 + k \<and> stage (4 + k - 1) = Inr (UNSAT, t) \<and>
        unsat_count stage (4 + k - 1) = 3 \<and> unsat_verdicts pre = 3 \<and>
        trace e = pre @ [STAGE_RUN (4 + k - 1) UNSAT t,
          WRITE_TO_OUTPUT (LOG_TOO_MANY_UNSAT 4 3)]"
      using tr verdict count pre by (intro exI [of _ "trace e0"] exI [of _ t]) simp
    from tr run0 have "stages_run (trace e) = [3..<4 + k]"
      by (simp add: stages_run_append upt_stage)
    with range(3,4) four count below last
    have "\<exists>n. 3 \<le> n \<and> n \<le> 8 \<and> stages_run (trace e) = [3..<n] \<and>
        unsat_inst e = unsat_count stage n \<and> (\<forall>j<n. unsat_count stage j \<le> 3) \<and>
        (unsat_inst e = 4 \<longrightarrow>
           (\<exists>pre t. 3 < n \<and> stage (n - 1) = Inr (UNSAT, t) \<and>
              unsat_count stage (n - 1) = 3 \<and> unsat_verdicts pre = 3 \<and>
              trace e = pre @ [STAGE_RUN (n - 1) UNSAT t,
                WRITE_TO_OUTPUT (LOG_TOO_MANY_UNSAT 4 3)]))"
      by (intro exI [of _ "4 + k"] conjI) simp_all
    with tied verdicts four abandoned show ?thesis
      by simp
  next
    case (Next res t)
    with inv brk show ?thesis
      by simp
  qed
qed

lemma verdict_step:
  assumes "entry_state m stage k = Some e0" and "k < 5"
    and "\<not> (0 < m \<and> m \<le> cur_total_runtime e0)"
    and "stage (3 + k) = Inr (res, t)" and "res \<noteq> INTERR"
  shows "unsat_inst e0 = unsat_count stage (3 + k) \<and>
     (unsat_count stage (4 + k) = 4 \<longrightarrow> res = UNSAT \<and>
        (\<exists>e. stage_loop m stage 3 init_evaluation = Inr e \<and> abandoned_too_many_unsat e \<and>
           trace e = trace e0 @ [STAGE_RUN (3 + k) UNSAT t,
             WRITE_TO_OUTPUT (LOG_TOO_MANY_UNSAT 4 3)] \<and>
           stages_run (trace e) = [3..<4 + k] \<and> unsat_inst e = 4)) \<and>
     (unsat_count stage (4 + k) \<le> 3 \<longrightarrow>
        (\<exists>e1. stage_body m stage (3 + k) e0 = Inr e1 \<and> \<not> is_break e1 \<and>
           unsat_inst e1 = unsat_count stage (4 + k) \<and>
           stage_loop m stage 3 init_evaluation = stage_loop m stage (4 + k) e1))"
proof -
  note inv = entry_invariant [OF assms(1)] and tie = entry_verdicts [OF assms(1)]
  from inv have le3: "unsat_inst e0 \<le> 3" and go: "\<not> is_break e0"
    and run0: "stages_run (trace e0) = [3..<3 + k]"
    by (simp_all add: MAX_UNSAT_INST_def)
  from tie have count0: "unsat_inst e0 = unsat_count stage (3 + k)"
    by simp
  from unsat_count_Suc [of "3 + k" stage res t] assms(4)
  have count: "unsat_count stage (4 + k) =
      unsat_count stage (3 + k) + (if res = UNSAT then 1 else 0)"
    by simp
  from assms(2) have le: "3 + k \<le> 7" "k \<le> 5"
    by simp_all
  have loop: "stage_loop m stage 3 init_evaluation = stage_loop m stage (3 + k) e0"
    by (rule loop_from_entry [OF assms(1) le(2)])
  have fourth: "res = UNSAT \<and>
      (\<exists>e. stage_loop m stage 3 init_evaluation = Inr e \<and> abandoned_too_many_unsat e \<and>
         trace e = trace e0 @ [STAGE_RUN (3 + k) UNSAT t,
           WRITE_TO_OUTPUT (LOG_TOO_MANY_UNSAT 4 3)] \<and>
         stages_run (trace e) = [3..<4 + k] \<and> unsat_inst e = 4)"
    if four: "unsat_count stage (4 + k) = 4"
  proof -
    from four count count0 le3 have res: "res = UNSAT" and three: "unsat_inst e0 = 3"
      by (simp_all split: if_splits)
    define e where "e = e0\<lparr>cur_total_runtime := cur_total_runtime e0 + t,
        trace := trace e0 @ [STAGE_RUN (3 + k) UNSAT t,
          WRITE_TO_OUTPUT (LOG_TOO_MANY_UNSAT 4 3)],
        unsat_inst := 4, is_break := True\<rparr>"
    from assms(3,4) res three have body: "stage_body m stage (3 + k) e0 = Inr e"
      by (auto simp: stage_body_def e_def MAX_UNSAT_INST_def)
    have "stage_loop m stage (3 + k) e0 = Inr e"
      by (rule stage_loop_break [OF le(1) body]) (simp add: e_def)
    with loop have "stage_loop m stage 3 init_evaluation = Inr e"
      by simp
    moreover have "abandoned_too_many_unsat e"
      by (simp add: e_def abandoned_too_many_unsat_def)
    moreover from run0 have "stages_run (trace e) = [3..<4 + k]"
      by (simp add: e_def stages_run_append upt_stage)
    moreover have "trace e = trace e0 @ [STAGE_RUN (3 + k) UNSAT t,
        WRITE_TO_OUTPUT (LOG_TOO_MANY_UNSAT 4 3)]" and "unsat_inst e = 4"
      by (simp_all add: e_def)
    ultimately show ?thesis
      using res by blast
  qed
  have goes_on: "\<exists>e1. stage_body m stage (3 + k) e0 = Inr e1 \<and> \<not> is_break e1 \<and>
      unsat_inst e1 = unsat_count stage (4 + k) \<and>
      stage_loop m stage 3 init_evaluation = stage_loop m stage (4 + k) e1"
    if few: "unsat_count stage (4 + k) \<le> 3"
  proof -
    define u where "u = unsat_inst e0 + (if res = UNSAT then 1 else 0)"
    from few count count0 have u: "u = unsat_count stage (4 + k)" "u \<le> 3"
      by (simp_all add: u_def)
    define e1 where "e1 = e0\<lparr>cur_total_runtime := cur_total_runtime e0 + t,
        trace := trace e0 @ [STAGE_RUN (3 + k) res t,
          WRITE_TO_OUTPUT (LOG_STAGE (3 + k) u t (cur_total_runtime e0 + t))],
        unsat_inst := u\<rparr>"
    from assms(3,4,5) u(2) have body: "stage_body m stage (3 + k) e0 = Inr e1"
      by (auto simp: stage_body_def e1_def u_def MAX_UNSAT_INST_def Let_def)
    from go have go1: "\<not> is_break e1"
      by (simp add: e1_def)
    from stage_loop_next [OF le(1) body go1] loop
    have "stage_loop m stage 3 init_evaluation = stage_loop m stage (4 + k) e1"
      by simp
    moreover from u(1) have "unsat_inst e1 = unsat_count stage (4 + k)"
      by (simp add: e1_def)
    ultimately show ?thesis
      using body go1 by blast
  qed
  from count0 fourth goes_on show ?thesis
    by blast
qed

lemma stage_three_body:
  assumes "stage 3 = Inr (res, t)"
  shows "\<exists>e1 rest. stage_body m stage 3 init_evaluation = Inr e1 \<and>
     trace e1 = STAGE_RUN 3 res t # rest \<and> \<not> abandoned_pruned e1 \<and>
     stage_loop m stage 3 init_evaluation =
       (if is_break e1 then Inr e1 else stage_loop m stage 4 e1)"
proof -
  have "\<exists>e1. stage_body m stage 3 init_evaluation = Inr e1"
    using assms by (cases res) (simp_all add: stage_body_def init_evaluation_def MAX_UNSAT_INST_def)
  then obtain e1 where body: "stage_body m stage 3 init_evaluation = Inr e1"
    by blast
  have start: "cur_total_runtime init_evaluation = 0" "trace init_evaluation = []"
    by (simp_all add: init_evaluation_def)
  from body have "(\<exists>rest. trace e1 = STAGE_RUN 3 res t # rest) \<and>
      \<not> list_ex is_pruned_line (trace e1)"
    using assms start by (cases rule: stage_body_cases) simp_all
  moreover have "stage_loop m stage 3 init_evaluation =
      (if is_break e1 then Inr e1 else stage_loop m stage 4 e1)"
    using body by (subst stage_loop.simps) simp
  ultimately show ?thesis
    using body by (auto simp: abandoned_pruned_def)
qed

subsection \<open>One worker\<close>




lemma candidate_evaluation_cases:
  assumes "candidate_evaluation env seed k w = Inr (c, g, e)"
  shows "gen_rand_output (rng_draw env) (rng_state w) = Inr (c, g)"
    and "stage_loop (min_total_solving_runtime w) (run_stage env k c seed) 3 init_evaluation = Inr e"
  using assms by (auto simp: candidate_evaluation_def split: sum.splits prod.splits)



lemma candidate_step_break:
  assumes "candidate_evaluation env seed k w = Inr (c, g, e)" and "is_break e"
  shows "\<exists>w'. candidate_step env seed k w = Inr w' \<and>
     min_total_solving_runtime w' = min_total_solving_runtime w"
  using assms by (simp add: candidate_step_def Let_def)





lemma stage_in_range: "n \<in> {3..7} \<longleftrightarrow> n = 3 \<or> n = 4 \<or> n = 5 \<or> n = 6 \<or> n = (7::nat)"
  by auto

lemma time_limit_positive: "n \<in> {3..7} \<Longrightarrow> 0 < MAX_LIMITS_SEC ! (n - 3)"
  unfolding stage_in_range by (auto simp: MAX_LIMITS_SEC_def)

lemma solve_cnf_in_range:
  "n \<in> {3..7} \<Longrightarrow> solve_cnf ex name n seed =
     read_solver_result (ex (solver_command name (MAX_LIMITS_SEC ! (n - 3)) seed))"
  using time_limit_positive [of n] by (simp add: solve_cnf_def)

lemma run_stage_valid:
  assumes "read_template (read_lines (templates env) (template_name n)) 0 [] = (V, cls)"
    and "0 < V" and "cls \<noteq> []" and "n \<in> {3..7}"
    and "solver_exec env k (solver_command (rand_cnf_name n seed) (MAX_LIMITS_SEC ! (n - 3)) seed)
      = Some ls"
    and "scan_result ls = res"
  shows "run_stage env k c seed n = Inr (res, elapsed_time_sec (elapsed_millisec env k n))"
  using gen_rand_cnf_valid [OF assms(1-3), of c seed] assms(5,6) solve_cnf_in_range [OF assms(4)]
  by (simp add: run_stage_def read_solver_result_def)

lemma candidate_step_result:
  assumes "candidate_evaluation env seed k w = Inr (c, g, e)"
  shows "\<exists>w'. candidate_step env seed k w = Inr w' \<and> rng_state w' = g \<and>
     min_total_solving_runtime w' =
       (if \<not> is_break e \<and> (min_total_solving_runtime w < 0 \<or>
             cur_total_runtime e < min_total_solving_runtime w)
        then cur_total_runtime e else min_total_solving_runtime w) \<and>
     stages_run (events w') = stages_run (events w) @ stages_run (trace e) \<and>
     unsat_verdicts (events w') = unsat_verdicts (events w) + unsat_verdicts (trace e)"
  using assms
  by (simp add: candidate_step_def Let_def stages_run_append unsat_verdicts_append)

lemma gen_rand_output_returns:
  assumes "\<forall>g. fst (draw g) = 1 \<or> fst (draw g) = 0"
  shows "\<exists>c g'. gen_rand_output draw g0 = Inr (c, g')"
proof -
  obtain bs g' where "draw_blocks draw 32 g0 = (bs, g')"
    by (cases "draw_blocks draw 32 g0")
  from rand_seq8_blocks [OF assms this] show ?thesis
    by (auto simp: gen_rand_output_def)
qed

lemma inconclusive_evaluation:
  assumes "\<forall>g. fst (rng_draw env g) = 1 \<or> fst (rng_draw env g) = 0"
    and "read_template (read_lines (templates env) (template_name 3)) 0 [] = (V, cls)"
    and "0 < V" and "cls \<noteq> []"
    and "\<forall>j cmd. \<exists>ls. solver_exec env j cmd = Some ls \<and> scan_result ls = INTERR"
  shows "\<exists>c g. candidate_evaluation env seed i w0 =
     Inr (c, g, \<lparr>cur_total_runtime = elapsed_time_sec (elapsed_millisec env i 3),
                 unsat_inst = 0, is_break = True,
                 trace = [STAGE_RUN 3 INTERR (elapsed_time_sec (elapsed_millisec env i 3))]\<rparr>)"
proof -
  from gen_rand_output_returns [OF assms(1)]
  obtain c g where out: "gen_rand_output (rng_draw env) (rng_state w0) = Inr (c, g)"
    by blast
  from assms(5) obtain ls where
    "solver_exec env i (solver_command (rand_cnf_name 3 seed) (MAX_LIMITS_SEC ! (3 - 3)) seed)
       = Some ls" and "scan_result ls = INTERR"
    by blast
  with assms(2-4) have "run_stage env i c seed 3 =
      Inr (INTERR, elapsed_time_sec (elapsed_millisec env i 3))"
    by (intro run_stage_valid) simp_all
  from stage_three_inconclusive [of "run_stage env i c seed", OF this] out show ?thesis
    by (simp add: candidate_evaluation_def)
qed

lemma inconclusive_run:
  assumes "\<forall>g. fst (rng_draw env g) = 1 \<or> fst (rng_draw env g) = 0"
    and "read_template (read_lines (templates env) (template_name 3)) 0 [] = (V, cls)"
    and "0 < V" and "cls \<noteq> []"
    and "\<forall>j cmd. \<exists>ls. solver_exec env j cmd = Some ls \<and> scan_result ls = INTERR"
  shows "\<exists>w. worker_run env cpu_num seed n = Inr w \<and> min_total_solving_runtime w = - 1 \<and>
     stages_run (events w) = replicate n 3 \<and> unsat_verdicts (events w) = 0"
proof (induction n)
  case 0
  show ?case
    by (simp add: start_worker_def)
next
  case (Suc n)
  then obtain w where run: "worker_run env cpu_num seed n = Inr w"
    and inv: "min_total_solving_runtime w = - 1" "stages_run (events w) = replicate n 3"
      "unsat_verdicts (events w) = 0"
    by blast
  from inconclusive_evaluation [OF assms, of seed n w] obtain c g where
    "candidate_evaluation env seed n w =
       Inr (c, g, \<lparr>cur_total_runtime = elapsed_time_sec (elapsed_millisec env n 3),
                   unsat_inst = 0, is_break = True,
                   trace = [STAGE_RUN 3 INTERR (elapsed_time_sec (elapsed_millisec env n 3))]\<rparr>)"
    by blast
  from candidate_step_result [OF this] run inv show ?case
    by (auto simp: replicate_append_same)
qed

lemma candidate_verdicts:
  assumes "candidate_evaluation env seed i w = Inr (c, g, ev)"
  shows "(\<forall>n res t. STAGE_RUN n res t \<in> set (trace ev) \<longrightarrow>
        run_stage env i c seed n = Inr (res, t)) \<and>
     (abandoned_too_many_unsat ev \<longleftrightarrow>
        unsat_count (run_stage env i c seed) (3 + length (stages_run (trace ev))) = 4)"
proof -
  note final = final_verdicts [OF candidate_evaluation_cases(2) [OF assms]]
  from final obtain n where n: "3 \<le> n" "stages_run (trace ev) = [3..<n]"
    "unsat_inst ev = unsat_count (run_stage env i c seed) n"
    by blast
  from n(1,2) have "3 + length (stages_run (trace ev)) = n"
    by simp
  with n(3) final show ?thesis
    by simp
qed

lemma run_stage_three:
  "run_stage env k c seed 3 =
     (case gen_rand_cnf c 3 seed (templates env) of
        Inl h \<Rightarrow> Inl h
      | Inr (name, lines) \<Rightarrow>
          (case solver_exec env k (solver_command name (MAX_LIMITS_SEC ! 0) seed) of
             None \<Rightarrow> Inl EXIT_FAILURE
           | Some ls \<Rightarrow> Inr (scan_result ls, elapsed_time_sec (elapsed_millisec env k 3))))"
  using solve_cnf_in_range [of 3]
  by (simp add: run_stage_def read_solver_result_def split: sum.splits prod.splits option.splits)

lemma candidate_stage_three:
  assumes "gen_rand_output (rng_draw env) (rng_state w) = Inr (c, g)"
  shows "(\<forall>h. gen_rand_cnf c 3 seed (templates env) = Inl h \<longrightarrow>
        candidate_evaluation env seed k w = Inl h) \<and>
     (\<forall>name lines. gen_rand_cnf c 3 seed (templates env) = Inr (name, lines) \<longrightarrow>
        (solver_exec env k (solver_command name (MAX_LIMITS_SEC ! 0) seed) = None \<longrightarrow>
           candidate_evaluation env seed k w = Inl EXIT_FAILURE) \<and>
        (\<forall>ls. solver_exec env k (solver_command name (MAX_LIMITS_SEC ! 0) seed) = Some ls \<longrightarrow>
           (\<exists>e1 rest.
              stage_body (min_total_solving_runtime w) (run_stage env k c seed) 3
                init_evaluation = Inr e1 \<and>
              trace e1 = STAGE_RUN 3 (scan_result ls)
                (elapsed_time_sec (elapsed_millisec env k 3)) # rest \<and>
              \<not> abandoned_pruned e1 \<and>
              stage_loop (min_total_solving_runtime w) (run_stage env k c seed) 3
                  init_evaluation =
                (if is_break e1 then Inr e1
                 else stage_loop (min_total_solving_runtime w) (run_stage env k c seed) 4 e1))))"
proof (intro conjI allI impI)
  fix h
  assume "gen_rand_cnf c 3 seed (templates env) = Inl h"
  then have "run_stage env k c seed 3 = Inl h"
    by (simp add: run_stage_three)
  from stage_three_halt [of "run_stage env k c seed", OF this] assms
  show "candidate_evaluation env seed k w = Inl h"
    by (simp add: candidate_evaluation_def)
next
  fix name lines
  assume "gen_rand_cnf c 3 seed (templates env) = Inr (name, lines)"
    and "solver_exec env k (solver_command name (MAX_LIMITS_SEC ! 0) seed) = None"
  then have "run_stage env k c seed 3 = Inl EXIT_FAILURE"
    by (simp add: run_stage_three)
  from stage_three_halt [of "run_stage env k c seed", OF this] assms
  show "candidate_evaluation env seed k w = Inl EXIT_FAILURE"
    by (simp add: candidate_evaluation_def)
next
  fix name lines ls
  assume "gen_rand_cnf c 3 seed (templates env) = Inr (name, lines)"
    and "solver_exec env k (solver_command name (MAX_LIMITS_SEC ! 0) seed) = Some ls"
  then have "run_stage env k c seed 3 =
      Inr (scan_result ls, elapsed_time_sec (elapsed_millisec env k 3))"
    by (simp add: run_stage_three)
  then show "\<exists>e1 rest.
      stage_body (min_total_solving_runtime w) (run_stage env k c seed) 3
        init_evaluation = Inr e1 \<and>
      trace e1 = STAGE_RUN 3 (scan_result ls)
        (elapsed_time_sec (elapsed_millisec env k 3)) # rest \<and>
      \<not> abandoned_pruned e1 \<and>
      stage_loop (min_total_solving_runtime w) (run_stage env k c seed) 3
          init_evaluation =
        (if is_break e1 then Inr e1
         else stage_loop (min_total_solving_runtime w) (run_stage env k c seed) 4 e1)"
    by (rule stage_three_body [of "run_stage env k c seed"])
qed

lemma candidate_stage_three_run:
  assumes "candidate_evaluation env seed k w = Inr (c, g, e)"
  shows "\<exists>name lines ls rest. gen_rand_output (rng_draw env) (rng_state w) = Inr (c, g) \<and>
     gen_rand_cnf c 3 seed (templates env) = Inr (name, lines) \<and>
     solver_exec env k (solver_command name (MAX_LIMITS_SEC ! 0) seed) = Some ls \<and>
     trace e = STAGE_RUN 3 (scan_result ls) (elapsed_time_sec (elapsed_millisec env k 3)) # rest \<and>
     3 \<in> set (stages_run (trace e))"
proof -
  note ev = candidate_evaluation_cases [OF assms]
  from stage_three_run [OF ev(2)] obtain res t rest
    where run: "run_stage env k c seed 3 = Inr (res, t)" and tr: "trace e = STAGE_RUN 3 res t # rest"
    by blast
  from run obtain name lines ls
    where "gen_rand_cnf c 3 seed (templates env) = Inr (name, lines)"
      and "solver_exec env k (solver_command name (MAX_LIMITS_SEC ! 0) seed) = Some ls"
      and "res = scan_result ls" and "t = elapsed_time_sec (elapsed_millisec env k 3)"
    by (auto simp: run_stage_three split: sum.splits prod.splits option.splits)
  with ev(1) tr show ?thesis
    by auto
qed

subsection \<open>The samples\<close>

lemma sample_template_parsed: "read_template sample_template 0 [] = (600, replicate 50 ''1 -2 0'')"
  using sample_template_read by (simp add: read_lines_def sample_files_def)

lemma scan_sat: "scan_result [''c exit 10'', ''s SATISFIABLE''] = SAT"
  by (simp add: str_find_def)

lemma scan_none: "scan_result [''c caught signal''] = INTERR"
  by (simp add: str_find_def)

lemma run_stage_sample:
  assumes "n \<in> {3..7}"
  shows "run_stage sample_env k c seed n = constant_stage SAT (if k = 0 then 2 else 1) n"
proof -
  have "read_template (read_lines (templates sample_env) (template_name n)) 0 [] =
      (600, replicate 50 ''1 -2 0'')"
    by (simp add: sample_env_def read_lines_def sample_template_parsed)
  from run_stage_valid [OF this _ _ assms _ scan_sat, where k = k and seed = seed and c = c]
  show ?thesis
    by (simp add: sample_env_def scan_sat constant_stage_def)
qed

lemma run_stage_instant:
  assumes "n \<in> {3..7}"
  shows "run_stage instant_env k c seed n = constant_stage SAT 0 n"
proof -
  have "read_template (read_lines (templates instant_env) (template_name n)) 0 [] =
      (600, replicate 50 ''1 -2 0'')"
    by (simp add: instant_env_def sample_env_def read_lines_def sample_template_parsed)
  from run_stage_valid [OF this _ _ assms _ scan_sat, where k = k and seed = seed and c = c]
  show ?thesis
    by (simp add: instant_env_def sample_env_def scan_sat constant_stage_def)
qed

lemma run_stage_inconclusive:
  assumes "n \<in> {3..7}"
  shows "run_stage inconclusive_env k c seed n = constant_stage INTERR (if k = 0 then 2 else 1) n"
proof -
  have "read_template (read_lines (templates inconclusive_env) (template_name n)) 0 [] =
      (600, replicate 50 ''1 -2 0'')"
    by (simp add: inconclusive_env_def sample_env_def read_lines_def sample_template_parsed)
  from run_stage_valid [OF this _ _ assms _ scan_none, where k = k and seed = seed and c = c]
  show ?thesis
    by (simp add: inconclusive_env_def sample_env_def scan_none constant_stage_def)
qed

lemma alternating_output:
  "gen_rand_output alternating False = Inr (alternating_candidate, False)"
proof -
  have "concat (map (\<lambda>b. b @ map complement_bit b) (replicate 32 ''01010101''))
      = alternating_candidate"
    by (simp add: complement_bit_def alternating_candidate_def)
  with rand_seq8_blocks [OF alternating_contract alternating_blocks] show ?thesis
    by (simp add: gen_rand_output_def)
qed

lemmas eval_stage = stage_loop.simps stage_body_def init_evaluation_def elapsed_time_sec_def
  MAX_UNSAT_INST_def

lemma stage_loop_env:
  assumes "\<forall>n. n \<in> {3..7} \<longrightarrow> run_stage env k c seed n = constant_stage res ms n"
  shows "stage_loop m (run_stage env k c seed) 3 init_evaluation =
     stage_loop m (constant_stage res ms) 3 init_evaluation"
  using assms by (intro stage_loop_cong) simp

lemma instant_stages:
  "stage_loop m (run_stage instant_env k c seed) 3 init_evaluation =
     stage_loop m (constant_stage SAT 0) 3 init_evaluation"
  by (rule stage_loop_env) (simp add: run_stage_instant)

lemma instant_first_pass:
  "\<exists>w. worker_run instant_env 1 0 1 = Inr w \<and> min_total_solving_runtime w = 0"
proof -
  have "stage_loop (- 1) (run_stage instant_env 0 alternating_candidate 0) 3 init_evaluation =
      Inr \<lparr>cur_total_runtime = 0, unsat_inst = 0, is_break = False,
           trace = [STAGE_RUN 3 SAT 0, WRITE_TO_OUTPUT (LOG_STAGE 3 0 0 0),
                    STAGE_RUN 4 SAT 0, WRITE_TO_OUTPUT (LOG_STAGE 4 0 0 0),
                    STAGE_RUN 5 SAT 0, WRITE_TO_OUTPUT (LOG_STAGE 5 0 0 0),
                    STAGE_RUN 6 SAT 0, WRITE_TO_OUTPUT (LOG_STAGE 6 0 0 0),
                    STAGE_RUN 7 SAT 0, WRITE_TO_OUTPUT (LOG_STAGE 7 0 0 0)]\<rparr>"
    unfolding instant_stages by (simp add: eval_stage constant_stage_def)
  then have "candidate_evaluation instant_env 0 0 (start_worker instant_env 1 0) =
      Inr (alternating_candidate, False,
           \<lparr>cur_total_runtime = 0, unsat_inst = 0, is_break = False,
            trace = [STAGE_RUN 3 SAT 0, WRITE_TO_OUTPUT (LOG_STAGE 3 0 0 0),
                     STAGE_RUN 4 SAT 0, WRITE_TO_OUTPUT (LOG_STAGE 4 0 0 0),
                     STAGE_RUN 5 SAT 0, WRITE_TO_OUTPUT (LOG_STAGE 5 0 0 0),
                     STAGE_RUN 6 SAT 0, WRITE_TO_OUTPUT (LOG_STAGE 6 0 0 0),
                     STAGE_RUN 7 SAT 0, WRITE_TO_OUTPUT (LOG_STAGE 7 0 0 0)]\<rparr>)"
    by (simp add: candidate_evaluation_def start_worker_def instant_env_def sample_env_def
        alternating_output)
  from candidate_step_result [OF this] show ?thesis
    by (auto simp: start_worker_def)
qed

lemma sample_stages:
  "stage_loop m (run_stage sample_env k c seed) 3 init_evaluation =
     stage_loop m (constant_stage SAT (if k = 0 then 2 else 1)) 3 init_evaluation"
  by (rule stage_loop_env) (simp add: run_stage_sample)




lemma scan_unsat: "scan_result [''c exit 20'', ''s UNSATISFIABLE''] = UNSAT"
  by (simp add: str_find_def)

lemma run_stage_unsat:
  assumes "n \<in> {3..7}"
  shows "run_stage unsat_env k c seed n = constant_stage UNSAT (if k = 0 then 2 else 1) n"
proof -
  have "read_template (read_lines (templates unsat_env) (template_name n)) 0 [] =
      (600, replicate 50 ''1 -2 0'')"
    by (simp add: unsat_env_def sample_env_def read_lines_def sample_template_parsed)
  from run_stage_valid [OF this _ _ assms _ scan_unsat, where k = k and seed = seed and c = c]
  show ?thesis
    by (simp add: unsat_env_def sample_env_def scan_unsat constant_stage_def)
qed

lemma unsat_stages:
  "stage_loop m (run_stage unsat_env k c seed) 3 init_evaluation =
     stage_loop m (constant_stage UNSAT (if k = 0 then 2 else 1)) 3 init_evaluation"
  by (rule stage_loop_env) (simp add: run_stage_unsat)

lemma unsat_candidate:
  "candidate_evaluation unsat_env 0 0 (start_worker unsat_env 1 0) =
     Inr (alternating_candidate, False,
       \<lparr>cur_total_runtime = 8 / 1000, unsat_inst = 4, is_break = True,
        trace = [STAGE_RUN 3 UNSAT (2 / 1000), WRITE_TO_OUTPUT (LOG_STAGE 3 1 (2 / 1000) (2 / 1000)),
                 STAGE_RUN 4 UNSAT (2 / 1000), WRITE_TO_OUTPUT (LOG_STAGE 4 2 (2 / 1000) (4 / 1000)),
                 STAGE_RUN 5 UNSAT (2 / 1000), WRITE_TO_OUTPUT (LOG_STAGE 5 3 (2 / 1000) (6 / 1000)),
                 STAGE_RUN 6 UNSAT (2 / 1000), WRITE_TO_OUTPUT (LOG_TOO_MANY_UNSAT 4 3)]\<rparr>)"
proof -
  have "stage_loop (- 1) (run_stage unsat_env 0 alternating_candidate 0) 3 init_evaluation =
     Inr \<lparr>cur_total_runtime = 8 / 1000, unsat_inst = 4, is_break = True,
        trace = [STAGE_RUN 3 UNSAT (2 / 1000), WRITE_TO_OUTPUT (LOG_STAGE 3 1 (2 / 1000) (2 / 1000)),
                 STAGE_RUN 4 UNSAT (2 / 1000), WRITE_TO_OUTPUT (LOG_STAGE 4 2 (2 / 1000) (4 / 1000)),
                 STAGE_RUN 5 UNSAT (2 / 1000), WRITE_TO_OUTPUT (LOG_STAGE 5 3 (2 / 1000) (6 / 1000)),
                 STAGE_RUN 6 UNSAT (2 / 1000), WRITE_TO_OUTPUT (LOG_TOO_MANY_UNSAT 4 3)]\<rparr>"
    unfolding unsat_stages by (simp add: eval_stage constant_stage_def)
  then show ?thesis
    by (simp add: candidate_evaluation_def start_worker_def unsat_env_def sample_env_def
        alternating_output)
qed

lemma unsat_count_constant:
  "unsat_count (constant_stage UNSAT ms) 3 = 0"
  "unsat_count (constant_stage UNSAT ms) 4 = 1"
  "unsat_count (constant_stage UNSAT ms) 6 = 3"
  "unsat_count (constant_stage UNSAT ms) 7 = 4"
  by (simp_all add: unsat_count_def constant_stage_def upt_rec)

lemma bounded_candidate:
  "candidate_evaluation sample_env 0 0 (bounded_worker sample_env (1 / 1000)) =
     Inr (alternating_candidate, False,
       \<lparr>cur_total_runtime = 2 / 1000, unsat_inst = 0, is_break = True,
        trace = [STAGE_RUN 3 SAT (2 / 1000), WRITE_TO_OUTPUT (LOG_STAGE 3 0 (2 / 1000) (2 / 1000)),
                 WRITE_TO_OUTPUT (LOG_PRUNED (2 / 1000) (1 / 1000))]\<rparr>)"
proof -
  have "stage_loop (1 / 1000) (run_stage sample_env 0 alternating_candidate 0) 3 init_evaluation =
     Inr \<lparr>cur_total_runtime = 2 / 1000, unsat_inst = 0, is_break = True,
        trace = [STAGE_RUN 3 SAT (2 / 1000), WRITE_TO_OUTPUT (LOG_STAGE 3 0 (2 / 1000) (2 / 1000)),
                 WRITE_TO_OUTPUT (LOG_PRUNED (2 / 1000) (1 / 1000))]\<rparr>"
    unfolding sample_stages by (simp add: eval_stage constant_stage_def)
  then show ?thesis
    by (simp add: candidate_evaluation_def bounded_worker_def start_worker_def sample_env_def
        alternating_output)
qed

lemma bounded_output:
  "gen_rand_output (rng_draw no_template_env) (rng_state (bounded_worker no_template_env m)) =
     Inr (alternating_candidate, False)"
  "gen_rand_output (rng_draw no_log_env) (rng_state (bounded_worker no_log_env m)) =
     Inr (alternating_candidate, False)"
  by (simp_all add: bounded_worker_def start_worker_def no_template_env_def no_log_env_def
      sample_env_def alternating_output)

lemma no_template_instance:
  "gen_rand_cnf c 3 seed (templates no_template_env) = Inl ASSERT_FAILED"
  by (rule gen_rand_cnf_invalid [of _ _ 0 "[]"])
    (simp_all add: no_template_env_def sample_env_def read_lines_def)

lemma no_log_instance:
  "gen_rand_cnf c 3 seed (templates no_log_env) =
     Inr (rand_cnf_name 3 seed,
          (''p cnf '' @ to_string 600 @ '' '' @
             to_string (length (replicate 50 ''1 -2 0'') + length c))
          # replicate 50 ''1 -2 0'' @ map (unit_clause 600 c) [0..<length c])"
  by (rule gen_rand_cnf_valid)
    (simp_all add: no_log_env_def sample_env_def read_lines_def sample_template_parsed)

subsection \<open>Pruning, abandonment and the best bound\<close>

text \<open>
  C2, amended: for every candidate evaluation, if the best bound is strictly positive
  and the cumulative runtime on entry to some stage \<open>n\<close> in \<open>[3, 7]\<close> is at least the
  bound, then the evaluation ends there as pruned: stage \<open>n\<close> and all later stages are
  not run, the stages that were run are exactly \<open>3, ..., n - 1\<close>, a strict prefix of
  \<open>[3, 4, 5, 6, 7]\<close> in increasing order, and the cumulative runtime is unchanged. With
  a bound of exactly 0 no evaluation is ever pruned.
\<close>

theorem prune_skips_remaining_stages:
  "(n \<in> {3..7} \<and> 0 < m \<and> entry_state m stage (n - 3) = Some e \<and> m \<le> cur_total_runtime e \<longrightarrow>
      (\<exists>e'. stage_loop m stage 3 init_evaluation = Inr e' \<and> abandoned_pruned e' \<and>
         cur_total_runtime e' = cur_total_runtime e \<and>
         stages_run (trace e') = [3..<n] \<and>
         (\<forall>k \<in> {n..7}. k \<notin> set (stages_run (trace e'))) \<and>
         strict_prefix (stages_run (trace e')) [3, 4, 5, 6, 7])) \<and>
   (\<forall>e0. stage_loop 0 stage 3 init_evaluation = Inr e0 \<longrightarrow>
      \<not> abandoned_pruned e0 \<and> \<not> list_ex is_pruned_line (trace e0))"
proof -
  have pruned: "\<exists>e'. stage_loop m stage 3 init_evaluation = Inr e' \<and> abandoned_pruned e' \<and>
      cur_total_runtime e' = cur_total_runtime e \<and>
      stages_run (trace e') = [3..<n] \<and>
      (\<forall>k \<in> {n..7}. k \<notin> set (stages_run (trace e'))) \<and>
      strict_prefix (stages_run (trace e')) [3, 4, 5, 6, 7]"
    if range: "n \<in> {3..7}" and pos: "0 < m"
      and entry: "entry_state m stage (n - 3) = Some e" and reached: "m \<le> cur_total_runtime e"
  proof -
    from range have n: "3 + (n - 3) = n" "n - 3 \<le> 5" "n \<le> 7"
      by auto
    define e' where "e' = e\<lparr>is_break := True,
        trace := trace e @ [WRITE_TO_OUTPUT (LOG_PRUNED (cur_total_runtime e) m)]\<rparr>"
    from pos reached have body: "stage_body m stage n e = Inr e'"
      by (simp add: stage_body_def e'_def)
    have "stage_loop m stage 3 init_evaluation = stage_loop m stage n e"
      using loop_from_entry [OF entry n(2)] n(1) by simp
    also have "\<dots> = Inr e'"
      using stage_loop_break [OF n(3) body] by (simp add: e'_def)
    finally have loop: "stage_loop m stage 3 init_evaluation = Inr e'" .
    from entry_invariant [OF entry] n(1) have run: "stages_run (trace e') = [3..<n]"
      by (simp add: e'_def stages_run_append)
    have "abandoned_pruned e'"
      by (simp add: abandoned_pruned_def e'_def)
    moreover have "cur_total_runtime e' = cur_total_runtime e"
      by (simp add: e'_def)
    moreover from run have "\<forall>k \<in> {n..7}. k \<notin> set (stages_run (trace e'))"
      by simp
    moreover from run n(3) have "strict_prefix (stages_run (trace e')) [3, 4, 5, 6, 7]"
      by (simp add: strict_prefix_stages)
    ultimately show ?thesis
      using loop run by blast
  qed
  have zero: "\<not> abandoned_pruned e0 \<and> \<not> list_ex is_pruned_line (trace e0)"
    if "stage_loop 0 stage 3 init_evaluation = Inr e0" for e0
    using nonpositive_bound_never_prunes [OF that] by (simp add: abandoned_pruned_def)
  from pruned zero show ?thesis
    by blast
qed

theorem prune_skips_remaining_stages_witness:
  "(4::nat) \<in> {3..7} \<and> (0::real) < 5 / 1000 \<and>
   entry_state (5 / 1000) (constant_stage SAT 7) (4 - 3) =
     Some \<lparr>cur_total_runtime = 7 / 1000, unsat_inst = 0, is_break = False,
           trace = [STAGE_RUN 3 SAT (7 / 1000),
                    WRITE_TO_OUTPUT (LOG_STAGE 3 0 (7 / 1000) (7 / 1000))]\<rparr> \<and>
   (\<exists>e'. stage_loop (5 / 1000) (constant_stage SAT 7) 3 init_evaluation = Inr e' \<and>
      abandoned_pruned e' \<and> cur_total_runtime e' = 7 / 1000 \<and>
      stages_run (trace e') = [3] \<and>
      strict_prefix (stages_run (trace e')) [3, 4, 5, 6, 7]) \<and>
   (\<exists>e0. stage_loop 0 (constant_stage SAT 7) 3 init_evaluation = Inr e0 \<and>
      \<not> abandoned_pruned e0 \<and> stages_run (trace e0) = [3, 4, 5, 6, 7])"
proof -
  let ?e = "\<lparr>cur_total_runtime = 7 / 1000, unsat_inst = 0, is_break = False,
      trace = [STAGE_RUN 3 SAT (7 / 1000),
               WRITE_TO_OUTPUT (LOG_STAGE 3 0 (7 / 1000) (7 / 1000))]\<rparr>"
  note at_sample = prune_skips_remaining_stages [where n = 4 and m = "5 / 1000" and stage = "constant_stage SAT 7"
      and e = ?e]
  have entry: "entry_state (5 / 1000) (constant_stage SAT 7) (4 - 3) = Some ?e"
    by (simp add: eval_stage constant_stage_def)
  have reached: "(4::nat) \<in> {3..7}" "(0::real) < 5 / 1000" "(5 / 1000::real) \<le> cur_total_runtime ?e"
    by simp_all
  from at_sample entry reached
  have "\<exists>e'. stage_loop (5 / 1000) (constant_stage SAT 7) 3 init_evaluation = Inr e' \<and>
      abandoned_pruned e' \<and> cur_total_runtime e' = cur_total_runtime ?e \<and>
      stages_run (trace e') = [3..<4] \<and>
      strict_prefix (stages_run (trace e')) [3, 4, 5, 6, 7]"
    by blast
  then have pruned: "\<exists>e'. stage_loop (5 / 1000) (constant_stage SAT 7) 3 init_evaluation = Inr e' \<and>
      abandoned_pruned e' \<and> cur_total_runtime e' = 7 / 1000 \<and>
      stages_run (trace e') = [3] \<and>
      strict_prefix (stages_run (trace e')) [3, 4, 5, 6, 7]"
    by (simp add: upt_rec)
  have "\<exists>e0. stage_loop 0 (constant_stage SAT 7) 3 init_evaluation = Inr e0 \<and>
      stages_run (trace e0) = [3, 4, 5, 6, 7]"
    by (simp add: eval_stage constant_stage_def)
  with at_sample have zero: "\<exists>e0. stage_loop 0 (constant_stage SAT 7) 3 init_evaluation = Inr e0 \<and>
      \<not> abandoned_pruned e0 \<and> stages_run (trace e0) = [3, 4, 5, 6, 7]"
    by blast
  from reached(1,2) entry pruned zero show ?thesis
    by (intro conjI)
qed

text \<open>
  C2, as the claim states it, fails for a bound that is set to 0. When every stage of
  the first candidate is solved in less than a millisecond, the candidate completes with
  cumulative runtime 0 and the bound is set to 0. The next candidate enters stage 3 with
  cumulative runtime 0, which is at least the bound, and yet all five stages are run: the
  guard of the prune check is \<^verbatim>\<open>min_total_solving_runtime > 0\<close>.
\<close>

theorem zero_bound_does_not_prune:
  "map_sum id min_total_solving_runtime (worker_run instant_env 1 0 1) = Inr 0 \<and>
   entry_state 0 (run_stage instant_env 1 alternating_candidate 0) (3 - 3) = Some init_evaluation \<and>
   (0::real) \<le> cur_total_runtime init_evaluation \<and>
   stage_loop 0 (run_stage instant_env 1 alternating_candidate 0) 3 init_evaluation =
     Inr \<lparr>cur_total_runtime = 0, unsat_inst = 0, is_break = False,
          trace = [STAGE_RUN 3 SAT 0, WRITE_TO_OUTPUT (LOG_STAGE 3 0 0 0),
                   STAGE_RUN 4 SAT 0, WRITE_TO_OUTPUT (LOG_STAGE 4 0 0 0),
                   STAGE_RUN 5 SAT 0, WRITE_TO_OUTPUT (LOG_STAGE 5 0 0 0),
                   STAGE_RUN 6 SAT 0, WRITE_TO_OUTPUT (LOG_STAGE 6 0 0 0),
                   STAGE_RUN 7 SAT 0, WRITE_TO_OUTPUT (LOG_STAGE 7 0 0 0)]\<rparr>"
proof -
  from instant_first_pass have "map_sum id min_total_solving_runtime (worker_run instant_env 1 0 1) = Inr 0"
    by auto
  moreover have "stage_loop 0 (run_stage instant_env 1 alternating_candidate 0) 3 init_evaluation =
     Inr \<lparr>cur_total_runtime = 0, unsat_inst = 0, is_break = False,
          trace = [STAGE_RUN 3 SAT 0, WRITE_TO_OUTPUT (LOG_STAGE 3 0 0 0),
                   STAGE_RUN 4 SAT 0, WRITE_TO_OUTPUT (LOG_STAGE 4 0 0 0),
                   STAGE_RUN 5 SAT 0, WRITE_TO_OUTPUT (LOG_STAGE 5 0 0 0),
                   STAGE_RUN 6 SAT 0, WRITE_TO_OUTPUT (LOG_STAGE 6 0 0 0),
                   STAGE_RUN 7 SAT 0, WRITE_TO_OUTPUT (LOG_STAGE 7 0 0 0)]\<rparr>"
    unfolding instant_stages by (simp add: eval_stage constant_stage_def)
  ultimately show ?thesis
    by (simp add: init_evaluation_def)
qed

text \<open>
  C3. For every candidate evaluation that returns: every stage run it records is a call
  of the solver with that verdict; the counter \<^verbatim>\<open>unsat_inst\<close> is the number of
  unsatisfiable verdicts the solver gave at the stages that were run, and it never
  exceeds 4; the evaluation is abandoned with the too-many-unsat line exactly when that
  number is 4; the number was at most 3 on entry to every stage that was run, and when
  it is 4 the last stage run is the one whose unsatisfiable verdict was the fourth.
  Conversely, when the evaluation enters stage \<open>3 + k\<close> without being pruned and the
  solver reaches a verdict there: if that verdict makes the number of unsatisfiable
  verdicts 4, the evaluation ends at this stage as abandoned for too many unsatisfiable
  instances; if the number stays at 3 or fewer, the evaluation is not abandoned and goes
  on with the next stage. The same holds of the evaluation of a candidate by a worker,
  where the verdicts are those of \<^verbatim>\<open>gen_rand_cnf\<close> and \<^verbatim>\<open>solve_cnf\<close>.
\<close>

theorem too_many_unsat_at_fourth:
  "(stage_loop m stage 3 init_evaluation = Inr e \<longrightarrow>
      (\<forall>n res t. STAGE_RUN n res t \<in> set (trace e) \<longrightarrow> stage n = Inr (res, t)) \<and>
      unsat_inst e = unsat_verdicts (trace e) \<and> unsat_inst e \<le> 4 \<and>
      (abandoned_too_many_unsat e \<longleftrightarrow> unsat_inst e = 4) \<and>
      (\<exists>n. 3 \<le> n \<and> n \<le> 8 \<and> stages_run (trace e) = [3..<n] \<and>
         unsat_inst e = unsat_count stage n \<and> (\<forall>j<n. unsat_count stage j \<le> 3) \<and>
         (unsat_inst e = 4 \<longrightarrow>
            (\<exists>pre t. 3 < n \<and> stage (n - 1) = Inr (UNSAT, t) \<and>
               unsat_count stage (n - 1) = 3 \<and> unsat_verdicts pre = 3 \<and>
               trace e = pre @ [STAGE_RUN (n - 1) UNSAT t,
                 WRITE_TO_OUTPUT (LOG_TOO_MANY_UNSAT 4 3)])))) \<and>
   (entry_state m stage k = Some e0 \<and> k < 5 \<and> \<not> (0 < m \<and> m \<le> cur_total_runtime e0) \<and>
      stage (3 + k) = Inr (res, t) \<and> res \<noteq> INTERR \<longrightarrow>
      unsat_inst e0 = unsat_count stage (3 + k) \<and>
      (unsat_count stage (4 + k) = 4 \<longrightarrow> res = UNSAT \<and>
         (\<exists>e. stage_loop m stage 3 init_evaluation = Inr e \<and> abandoned_too_many_unsat e \<and>
            trace e = trace e0 @ [STAGE_RUN (3 + k) UNSAT t,
              WRITE_TO_OUTPUT (LOG_TOO_MANY_UNSAT 4 3)] \<and>
            stages_run (trace e) = [3..<4 + k] \<and> unsat_inst e = 4)) \<and>
      (unsat_count stage (4 + k) \<le> 3 \<longrightarrow>
         (\<exists>e1. stage_body m stage (3 + k) e0 = Inr e1 \<and> \<not> is_break e1 \<and>
            unsat_inst e1 = unsat_count stage (4 + k) \<and>
            stage_loop m stage 3 init_evaluation = stage_loop m stage (4 + k) e1))) \<and>
   (candidate_evaluation env seed i w = Inr (c, g, ev) \<longrightarrow>
      (\<forall>n res t. STAGE_RUN n res t \<in> set (trace ev) \<longrightarrow>
         run_stage env i c seed n = Inr (res, t)) \<and>
      (abandoned_too_many_unsat ev \<longleftrightarrow>
         unsat_count (run_stage env i c seed) (3 + length (stages_run (trace ev))) = 4))"
proof -
  have final: "stage_loop m stage 3 init_evaluation = Inr e \<longrightarrow>
      (\<forall>n res t. STAGE_RUN n res t \<in> set (trace e) \<longrightarrow> stage n = Inr (res, t)) \<and>
      unsat_inst e = unsat_verdicts (trace e) \<and> unsat_inst e \<le> 4 \<and>
      (abandoned_too_many_unsat e \<longleftrightarrow> unsat_inst e = 4) \<and>
      (\<exists>n. 3 \<le> n \<and> n \<le> 8 \<and> stages_run (trace e) = [3..<n] \<and>
         unsat_inst e = unsat_count stage n \<and> (\<forall>j<n. unsat_count stage j \<le> 3) \<and>
         (unsat_inst e = 4 \<longrightarrow>
            (\<exists>pre t. 3 < n \<and> stage (n - 1) = Inr (UNSAT, t) \<and>
               unsat_count stage (n - 1) = 3 \<and> unsat_verdicts pre = 3 \<and>
               trace e = pre @ [STAGE_RUN (n - 1) UNSAT t,
                 WRITE_TO_OUTPUT (LOG_TOO_MANY_UNSAT 4 3)])))"
    by (rule impI) (rule final_verdicts)
  have step: "entry_state m stage k = Some e0 \<and> k < 5 \<and>
      \<not> (0 < m \<and> m \<le> cur_total_runtime e0) \<and> stage (3 + k) = Inr (res, t) \<and> res \<noteq> INTERR \<longrightarrow>
      unsat_inst e0 = unsat_count stage (3 + k) \<and>
      (unsat_count stage (4 + k) = 4 \<longrightarrow> res = UNSAT \<and>
         (\<exists>e. stage_loop m stage 3 init_evaluation = Inr e \<and> abandoned_too_many_unsat e \<and>
            trace e = trace e0 @ [STAGE_RUN (3 + k) UNSAT t,
              WRITE_TO_OUTPUT (LOG_TOO_MANY_UNSAT 4 3)] \<and>
            stages_run (trace e) = [3..<4 + k] \<and> unsat_inst e = 4)) \<and>
      (unsat_count stage (4 + k) \<le> 3 \<longrightarrow>
         (\<exists>e1. stage_body m stage (3 + k) e0 = Inr e1 \<and> \<not> is_break e1 \<and>
            unsat_inst e1 = unsat_count stage (4 + k) \<and>
            stage_loop m stage 3 init_evaluation = stage_loop m stage (4 + k) e1))"
    by (rule impI, rule verdict_step) simp_all
  have real: "candidate_evaluation env seed i w = Inr (c, g, ev) \<longrightarrow>
      (\<forall>n res t. STAGE_RUN n res t \<in> set (trace ev) \<longrightarrow>
         run_stage env i c seed n = Inr (res, t)) \<and>
      (abandoned_too_many_unsat ev \<longleftrightarrow>
         unsat_count (run_stage env i c seed) (3 + length (stages_run (trace ev))) = 4)"
    by (rule impI) (rule candidate_verdicts)
  from final step real show ?thesis
    by (intro conjI)
qed

theorem too_many_unsat_at_fourth_witness:
  "entry_state (- 1) (constant_stage UNSAT 1) 3 =
     Some \<lparr>cur_total_runtime = 3 / 1000, unsat_inst = 3, is_break = False,
           trace = [STAGE_RUN 3 UNSAT (1 / 1000), WRITE_TO_OUTPUT (LOG_STAGE 3 1 (1 / 1000) (1 / 1000)),
                    STAGE_RUN 4 UNSAT (1 / 1000), WRITE_TO_OUTPUT (LOG_STAGE 4 2 (1 / 1000) (2 / 1000)),
                    STAGE_RUN 5 UNSAT (1 / 1000), WRITE_TO_OUTPUT (LOG_STAGE 5 3 (1 / 1000) (3 / 1000))]\<rparr> \<and>
   constant_stage UNSAT 1 (3 + 3) = Inr (UNSAT, 1 / 1000) \<and>
   unsat_count (constant_stage UNSAT 1) (3 + 3) = 3 \<and>
   unsat_count (constant_stage UNSAT 1) (4 + 3) = 4 \<and>
   (\<exists>e. stage_loop (- 1) (constant_stage UNSAT 1) 3 init_evaluation = Inr e \<and>
      abandoned_too_many_unsat e \<and> stages_run (trace e) = [3, 4, 5, 6] \<and>
      unsat_verdicts (trace e) = 4 \<and> unsat_inst e = 4 \<and>
      (\<forall>n res t. STAGE_RUN n res t \<in> set (trace e) \<longrightarrow>
         constant_stage UNSAT 1 n = Inr (res, t))) \<and>
   unsat_count (constant_stage UNSAT 1) (4 + 0) \<le> 3 \<and>
   (\<exists>e1. stage_body (- 1) (constant_stage UNSAT 1) (3 + 0) init_evaluation = Inr e1 \<and>
      \<not> is_break e1 \<and> unsat_inst e1 = 1) \<and>
   (\<exists>c g ev. candidate_evaluation unsat_env 0 0 (start_worker unsat_env 1 0) = Inr (c, g, ev) \<and>
      stages_run (trace ev) = [3, 4, 5, 6] \<and> abandoned_too_many_unsat ev \<and>
      unsat_count (run_stage unsat_env 0 c 0) (3 + length (stages_run (trace ev))) = 4)"
proof -
  let ?stage = "constant_stage UNSAT 1"
  let ?e0 = "\<lparr>cur_total_runtime = 3 / 1000, unsat_inst = 3, is_break = False,
      trace = [STAGE_RUN 3 UNSAT (1 / 1000), WRITE_TO_OUTPUT (LOG_STAGE 3 1 (1 / 1000) (1 / 1000)),
               STAGE_RUN 4 UNSAT (1 / 1000), WRITE_TO_OUTPUT (LOG_STAGE 4 2 (1 / 1000) (2 / 1000)),
               STAGE_RUN 5 UNSAT (1 / 1000), WRITE_TO_OUTPUT (LOG_STAGE 5 3 (1 / 1000) (3 / 1000))]\<rparr>"
  let ?ev = "\<lparr>cur_total_runtime = 8 / 1000, unsat_inst = 4, is_break = True,
      trace = [STAGE_RUN 3 UNSAT (2 / 1000), WRITE_TO_OUTPUT (LOG_STAGE 3 1 (2 / 1000) (2 / 1000)),
               STAGE_RUN 4 UNSAT (2 / 1000), WRITE_TO_OUTPUT (LOG_STAGE 4 2 (2 / 1000) (4 / 1000)),
               STAGE_RUN 5 UNSAT (2 / 1000), WRITE_TO_OUTPUT (LOG_STAGE 5 3 (2 / 1000) (6 / 1000)),
               STAGE_RUN 6 UNSAT (2 / 1000), WRITE_TO_OUTPUT (LOG_TOO_MANY_UNSAT 4 3)]\<rparr>"
  note at_sample = too_many_unsat_at_fourth [where m = "- 1" and stage = ?stage
      and res = UNSAT and t = "1 / 1000" and env = unsat_env and seed = 0 and i = 0
      and w = "start_worker unsat_env 1 0" and c = alternating_candidate and g = False
      and ev = ?ev]
  have entry: "entry_state (- 1) ?stage 3 = Some ?e0"
    by (simp add: eval_stage constant_stage_def eval_nat_numeral)
  have verdict: "?stage (3 + 3) = Inr (UNSAT, 1 / 1000)" "?stage (3 + 0) = Inr (UNSAT, 1 / 1000)"
    by (simp_all add: constant_stage_def elapsed_time_sec_def)
  have counts: "unsat_count ?stage (3 + 3) = 3" "unsat_count ?stage (4 + 3) = 4"
    "unsat_count ?stage (4 + 0) \<le> 3" "unsat_count ?stage (4 + 0) = 1"
    by (simp_all add: unsat_count_constant)
  have start: "entry_state (- 1) ?stage 0 = Some init_evaluation"
    "\<not> (0 < (- 1::real) \<and> - 1 \<le> cur_total_runtime init_evaluation)"
    "\<not> (0 < (- 1::real) \<and> - 1 \<le> cur_total_runtime ?e0)"
    by simp_all
  have verdicts: "UNSAT \<noteq> INTERR" "(3::nat) < 5" "(0::nat) < 5"
    by simp_all
  from at_sample [where k = 3 and ?e0.0 = ?e0 and e = init_evaluation]
    entry verdict(1) counts(2) start(3) verdicts
  obtain e where run: "stage_loop (- 1) ?stage 3 init_evaluation = Inr e"
    and abandoned: "abandoned_too_many_unsat e"
    and stages: "stages_run (trace e) = [3..<4 + 3]" and four: "unsat_inst e = 4"
    by blast
  from at_sample [where k = 3 and ?e0.0 = ?e0 and e = e] run
  have tied: "\<forall>n res t. STAGE_RUN n res t \<in> set (trace e) \<longrightarrow> ?stage n = Inr (res, t)"
    and count: "unsat_inst e = unsat_verdicts (trace e)"
    by blast+
  from stages have stages': "stages_run (trace e) = [3, 4, 5, 6]"
    by (simp add: upt_rec)
  from run abandoned stages' four count tied
  have fourth: "\<exists>e. stage_loop (- 1) ?stage 3 init_evaluation = Inr e \<and>
      abandoned_too_many_unsat e \<and> stages_run (trace e) = [3, 4, 5, 6] \<and>
      unsat_verdicts (trace e) = 4 \<and> unsat_inst e = 4 \<and>
      (\<forall>n res t. STAGE_RUN n res t \<in> set (trace e) \<longrightarrow> ?stage n = Inr (res, t))"
    by (intro exI [of _ e]) simp
  from at_sample [where k = 0 and ?e0.0 = init_evaluation and e = init_evaluation]
    start(1,2) verdict(2) counts(3) verdicts
  obtain e1 where "stage_body (- 1) ?stage (3 + 0) init_evaluation = Inr e1" "\<not> is_break e1"
    "unsat_inst e1 = unsat_count ?stage (4 + 0)"
    by blast
  with counts(4) have goes_on: "\<exists>e1. stage_body (- 1) ?stage (3 + 0) init_evaluation = Inr e1 \<and>
      \<not> is_break e1 \<and> unsat_inst e1 = 1"
    by (intro exI [of _ e1]) simp
  have ev: "candidate_evaluation unsat_env 0 0 (start_worker unsat_env 1 0) =
      Inr (alternating_candidate, False, ?ev)"
    by (rule unsat_candidate)
  have "abandoned_too_many_unsat ?ev"
    by (simp add: abandoned_too_many_unsat_def)
  with at_sample [where k = 0 and ?e0.0 = init_evaluation and e = init_evaluation] ev
  have "unsat_count (run_stage unsat_env 0 alternating_candidate 0)
      (3 + length (stages_run (trace ?ev))) = 4"
    by blast
  with ev have real: "\<exists>c g ev.
      candidate_evaluation unsat_env 0 0 (start_worker unsat_env 1 0) = Inr (c, g, ev) \<and>
      stages_run (trace ev) = [3, 4, 5, 6] \<and> abandoned_too_many_unsat ev \<and>
      unsat_count (run_stage unsat_env 0 c 0) (3 + length (stages_run (trace ev))) = 4"
    by (intro exI [of _ alternating_candidate] exI [of _ False] exI [of _ ?ev])
      (simp add: abandoned_too_many_unsat_def)
  from entry verdict(1) counts(1,2,3) fourth goes_on real show ?thesis
    by (intro conjI)
qed

text \<open>
  C10. The cumulative runtime is 0 on entry to stage 3, so the prune condition (bound
  strictly positive and cumulative runtime at least the bound) is false there, whatever
  the bound. For every candidate a worker draws, whatever its bound: when the stage-3
  instance cannot be materialized (\<^verbatim>\<open>gen_rand_cnf\<close> fails an assertion) the
  evaluation stops the process in the same way; when it is materialized and the solver
  leaves no result log, the process exits with failure; otherwise the body of stage 3
  records the run of stage 3 with the verdict read from the log of the solver called on
  the materialized instance, it is not pruned, and the evaluation either ends there or
  goes on with stage 4. Every evaluation that returns starts with that stage-3 run. A
  bound of exactly 0 behaves like the unset bound \<open>-1\<close> and never prunes.
\<close>

theorem stage_three_always_runs:
  "cur_total_runtime init_evaluation = 0 \<and>
   \<not> (0 < m \<and> m \<le> cur_total_runtime init_evaluation) \<and>
   (\<forall>h. stage 3 = Inl h \<longrightarrow> stage_loop m stage 3 init_evaluation = Inl h) \<and>
   (\<forall>e. stage_loop m stage 3 init_evaluation = Inr e \<longrightarrow>
      (\<exists>res t rest. stage 3 = Inr (res, t) \<and> trace e = STAGE_RUN 3 res t # rest)) \<and>
   (\<forall>c g. gen_rand_output (rng_draw env) (rng_state w) = Inr (c, g) \<longrightarrow>
      (\<forall>h. gen_rand_cnf c 3 seed (templates env) = Inl h \<longrightarrow>
         candidate_evaluation env seed k w = Inl h) \<and>
      (\<forall>name lines. gen_rand_cnf c 3 seed (templates env) = Inr (name, lines) \<longrightarrow>
         (solver_exec env k (solver_command name (MAX_LIMITS_SEC ! 0) seed) = None \<longrightarrow>
            candidate_evaluation env seed k w = Inl EXIT_FAILURE) \<and>
         (\<forall>ls. solver_exec env k (solver_command name (MAX_LIMITS_SEC ! 0) seed) = Some ls \<longrightarrow>
            (\<exists>e1 rest.
               stage_body (min_total_solving_runtime w) (run_stage env k c seed) 3
                 init_evaluation = Inr e1 \<and>
               trace e1 = STAGE_RUN 3 (scan_result ls)
                 (elapsed_time_sec (elapsed_millisec env k 3)) # rest \<and>
               \<not> abandoned_pruned e1 \<and>
               stage_loop (min_total_solving_runtime w) (run_stage env k c seed) 3
                   init_evaluation =
                 (if is_break e1 then Inr e1
                  else stage_loop (min_total_solving_runtime w) (run_stage env k c seed) 4
                    e1))))) \<and>
   (\<forall>c g e. candidate_evaluation env seed k w = Inr (c, g, e) \<longrightarrow>
      (\<exists>name lines ls rest. gen_rand_output (rng_draw env) (rng_state w) = Inr (c, g) \<and>
         gen_rand_cnf c 3 seed (templates env) = Inr (name, lines) \<and>
         solver_exec env k (solver_command name (MAX_LIMITS_SEC ! 0) seed) = Some ls \<and>
         trace e = STAGE_RUN 3 (scan_result ls)
           (elapsed_time_sec (elapsed_millisec env k 3)) # rest \<and>
         3 \<in> set (stages_run (trace e)))) \<and>
   stage_loop 0 stage n start = stage_loop (- 1) stage n start \<and>
   (\<forall>e. stage_loop 0 stage 3 init_evaluation = Inr e \<longrightarrow> \<not> abandoned_pruned e)"
proof -
  have zero: "cur_total_runtime init_evaluation = 0"
    by (simp add: init_evaluation_def)
  then have no_prune: "\<not> (0 < m \<and> m \<le> cur_total_runtime init_evaluation)"
    by simp
  have halts: "\<forall>h. stage 3 = Inl h \<longrightarrow> stage_loop m stage 3 init_evaluation = Inl h"
    by (intro allI impI) (rule stage_three_halt)
  have runs: "\<forall>e. stage_loop m stage 3 init_evaluation = Inr e \<longrightarrow>
      (\<exists>res t rest. stage 3 = Inr (res, t) \<and> trace e = STAGE_RUN 3 res t # rest)"
    by (intro allI impI) (rule stage_three_run)
  have first: "\<forall>c g. gen_rand_output (rng_draw env) (rng_state w) = Inr (c, g) \<longrightarrow>
      (\<forall>h. gen_rand_cnf c 3 seed (templates env) = Inl h \<longrightarrow>
         candidate_evaluation env seed k w = Inl h) \<and>
      (\<forall>name lines. gen_rand_cnf c 3 seed (templates env) = Inr (name, lines) \<longrightarrow>
         (solver_exec env k (solver_command name (MAX_LIMITS_SEC ! 0) seed) = None \<longrightarrow>
            candidate_evaluation env seed k w = Inl EXIT_FAILURE) \<and>
         (\<forall>ls. solver_exec env k (solver_command name (MAX_LIMITS_SEC ! 0) seed) = Some ls \<longrightarrow>
            (\<exists>e1 rest.
               stage_body (min_total_solving_runtime w) (run_stage env k c seed) 3
                 init_evaluation = Inr e1 \<and>
               trace e1 = STAGE_RUN 3 (scan_result ls)
                 (elapsed_time_sec (elapsed_millisec env k 3)) # rest \<and>
               \<not> abandoned_pruned e1 \<and>
               stage_loop (min_total_solving_runtime w) (run_stage env k c seed) 3
                   init_evaluation =
                 (if is_break e1 then Inr e1
                  else stage_loop (min_total_solving_runtime w) (run_stage env k c seed) 4
                    e1))))"
    by (intro allI impI) (rule candidate_stage_three)
  have returned: "\<forall>c g e. candidate_evaluation env seed k w = Inr (c, g, e) \<longrightarrow>
      (\<exists>name lines ls rest. gen_rand_output (rng_draw env) (rng_state w) = Inr (c, g) \<and>
         gen_rand_cnf c 3 seed (templates env) = Inr (name, lines) \<and>
         solver_exec env k (solver_command name (MAX_LIMITS_SEC ! 0) seed) = Some ls \<and>
         trace e = STAGE_RUN 3 (scan_result ls)
           (elapsed_time_sec (elapsed_millisec env k 3)) # rest \<and>
         3 \<in> set (stages_run (trace e)))"
    by (intro allI impI) (rule candidate_stage_three_run)
  have same: "stage_loop 0 stage n start = stage_loop (- 1) stage n start"
    by (rule stage_loop_zero_bound)
  have never: "\<forall>e. stage_loop 0 stage 3 init_evaluation = Inr e \<longrightarrow> \<not> abandoned_pruned e"
  proof (intro allI impI)
    fix e
    assume "stage_loop 0 stage 3 init_evaluation = Inr e"
    from nonpositive_bound_never_prunes [OF this] show "\<not> abandoned_pruned e"
      by (simp add: abandoned_pruned_def)
  qed
  from zero no_prune halts runs first returned same never show ?thesis
    by (intro conjI)
qed

theorem stage_three_always_runs_witness:
  "stage_loop (5 / 1000) (constant_stage INTERR 7) 3 init_evaluation =
     Inr \<lparr>cur_total_runtime = 7 / 1000, unsat_inst = 0, is_break = True,
          trace = [STAGE_RUN 3 INTERR (7 / 1000)]\<rparr> \<and>
   (\<exists>res t rest. constant_stage INTERR 7 3 = Inr (res, t) \<and>
      [STAGE_RUN 3 INTERR (7 / 1000)] = STAGE_RUN 3 res t # rest) \<and>
   failing_stage ASSERT_FAILED 3 = Inl ASSERT_FAILED \<and>
   stage_loop (5 / 1000) (failing_stage ASSERT_FAILED) 3 init_evaluation = Inl ASSERT_FAILED \<and>
   (\<exists>e. stage_loop 0 (constant_stage SAT 0) 3 init_evaluation = Inr e \<and> \<not> abandoned_pruned e) \<and>
   (\<exists>c g e name lines ls.
      candidate_evaluation sample_env 0 0 (bounded_worker sample_env (1 / 1000)) = Inr (c, g, e) \<and>
      abandoned_pruned e \<and> stages_run (trace e) = [3] \<and>
      gen_rand_cnf c 3 0 (templates sample_env) = Inr (name, lines) \<and>
      solver_exec sample_env 0 (solver_command name (MAX_LIMITS_SEC ! 0) 0) = Some ls \<and>
      hd (trace e) = STAGE_RUN 3 (scan_result ls) (2 / 1000)) \<and>
   gen_rand_cnf alternating_candidate 3 0 (templates no_template_env) = Inl ASSERT_FAILED \<and>
   candidate_evaluation no_template_env 0 0 (bounded_worker no_template_env (1 / 1000)) =
     Inl ASSERT_FAILED \<and>
   (\<exists>name lines. gen_rand_cnf alternating_candidate 3 0 (templates no_log_env) = Inr (name, lines) \<and>
      solver_exec no_log_env 0 (solver_command name (MAX_LIMITS_SEC ! 0) 0) = None) \<and>
   candidate_evaluation no_log_env 0 0 (bounded_worker no_log_env (1 / 1000)) = Inl EXIT_FAILURE"
proof -
  note at_stage = stage_three_always_runs [where env = sample_env and seed = 0 and k = 0
      and w = "start_worker sample_env 1 0" and n = 3 and start = init_evaluation]
  note at_sample = stage_three_always_runs [where seed = 0 and k = 0 and n = 3
      and start = init_evaluation and m = 0 and stage = "constant_stage SAT 0"]
  let ?e = "\<lparr>cur_total_runtime = 2 / 1000, unsat_inst = 0, is_break = True,
      trace = [STAGE_RUN 3 SAT (2 / 1000), WRITE_TO_OUTPUT (LOG_STAGE 3 0 (2 / 1000) (2 / 1000)),
               WRITE_TO_OUTPUT (LOG_PRUNED (2 / 1000) (1 / 1000))]\<rparr>"
  have run: "stage_loop (5 / 1000) (constant_stage INTERR 7) 3 init_evaluation =
     Inr \<lparr>cur_total_runtime = 7 / 1000, unsat_inst = 0, is_break = True,
          trace = [STAGE_RUN 3 INTERR (7 / 1000)]\<rparr>"
    by (simp add: eval_stage constant_stage_def)
  with at_stage [where m = "5 / 1000" and stage = "constant_stage INTERR 7"]
  obtain res t rest where "constant_stage INTERR 7 3 = Inr (res, t)"
    and "trace \<lparr>cur_total_runtime = 7 / 1000, unsat_inst = 0, is_break = True,
          trace = [STAGE_RUN 3 INTERR (7 / 1000)]\<rparr> = STAGE_RUN 3 res t # rest"
    by blast
  then have head: "\<exists>res t rest. constant_stage INTERR 7 3 = Inr (res, t) \<and>
      [STAGE_RUN 3 INTERR (7 / 1000)] = STAGE_RUN 3 res t # rest"
    by (intro exI [of _ res] exI [of _ t] exI [of _ rest]) simp
  have fails: "failing_stage ASSERT_FAILED 3 = Inl ASSERT_FAILED"
    by (simp add: failing_stage_def)
  with at_stage [where m = "5 / 1000" and stage = "failing_stage ASSERT_FAILED"]
  have halts: "stage_loop (5 / 1000) (failing_stage ASSERT_FAILED) 3 init_evaluation =
      Inl ASSERT_FAILED"
    by blast
  have "\<exists>e. stage_loop 0 (constant_stage SAT 0) 3 init_evaluation = Inr e"
    by (simp add: eval_stage constant_stage_def)
  with at_stage [where m = 0 and stage = "constant_stage SAT 0"]
  have zero: "\<exists>e. stage_loop 0 (constant_stage SAT 0) 3 init_evaluation = Inr e \<and>
      \<not> abandoned_pruned e"
    by blast
  have ev: "candidate_evaluation sample_env 0 0 (bounded_worker sample_env (1 / 1000)) =
      Inr (alternating_candidate, False, ?e)"
    by (rule bounded_candidate)
  with at_sample [where env = sample_env and w = "bounded_worker sample_env (1 / 1000)"]
  obtain name lines ls rest
    where inst: "gen_rand_cnf alternating_candidate 3 0 (templates sample_env) = Inr (name, lines)"
      and call: "solver_exec sample_env 0 (solver_command name (MAX_LIMITS_SEC ! 0) 0) = Some ls"
      and tr: "trace ?e = STAGE_RUN 3 (scan_result ls)
        (elapsed_time_sec (elapsed_millisec sample_env 0 3)) # rest"
    by blast
  from tr have "hd (trace ?e) = STAGE_RUN 3 (scan_result ls) (2 / 1000)"
    by (simp add: sample_env_def elapsed_time_sec_def)
  with ev inst call have worker: "\<exists>c g e name lines ls.
      candidate_evaluation sample_env 0 0 (bounded_worker sample_env (1 / 1000)) = Inr (c, g, e) \<and>
      abandoned_pruned e \<and> stages_run (trace e) = [3] \<and>
      gen_rand_cnf c 3 0 (templates sample_env) = Inr (name, lines) \<and>
      solver_exec sample_env 0 (solver_command name (MAX_LIMITS_SEC ! 0) 0) = Some ls \<and>
      hd (trace e) = STAGE_RUN 3 (scan_result ls) (2 / 1000)"
    by (intro exI [of _ alternating_candidate] exI [of _ False] exI [of _ ?e]
        exI [of _ name] exI [of _ lines] exI [of _ ls]) (simp add: abandoned_pruned_def)
  have missing: "gen_rand_cnf alternating_candidate 3 0 (templates no_template_env) =
      Inl ASSERT_FAILED"
    by (rule no_template_instance)
  with at_sample [where env = no_template_env and w = "bounded_worker no_template_env (1 / 1000)"]
    bounded_output(1) [of "1 / 1000"]
  have stops: "candidate_evaluation no_template_env 0 0
      (bounded_worker no_template_env (1 / 1000)) = Inl ASSERT_FAILED"
    by blast
  have no_log: "solver_exec no_log_env 0 cmd = None" for cmd
    by (simp add: no_log_env_def sample_env_def)
  with no_log_instance [of alternating_candidate 0]
  have unopened: "\<exists>name lines.
      gen_rand_cnf alternating_candidate 3 0 (templates no_log_env) = Inr (name, lines) \<and>
      solver_exec no_log_env 0 (solver_command name (MAX_LIMITS_SEC ! 0) 0) = None"
    by blast
  with at_sample [where env = no_log_env and w = "bounded_worker no_log_env (1 / 1000)"]
    bounded_output(2) [of "1 / 1000"]
  have exits: "candidate_evaluation no_log_env 0 0 (bounded_worker no_log_env (1 / 1000)) =
      Inl EXIT_FAILURE"
    by blast
  from run head fails halts zero worker missing stops unopened exits show ?thesis
    by (intro conjI)
qed



text \<open>
  C6. An inconclusive verdict at stage \<open>3 + k\<close> ends the evaluation at once: no
  further stage is run and the counter of unsatisfiable verdicts is unchanged. A pass
  whose evaluation was abandoned leaves the bound as it was. When the random source keeps
  its contract, the stage-3 template is valid and the solver never reaches a verdict,
  every evaluation is abandoned at stage 3 with \<^verbatim>\<open>unsat_inst\<close> = 0, and after any
  number of passes the bound is still unset, only stage 3 was ever run, once per
  candidate, and no unsatisfiable verdict was seen.
\<close>

theorem inconclusive_never_promoted:
  "(entry_state m stage k = Some e0 \<and> k < 5 \<and> \<not> (0 < m \<and> m \<le> cur_total_runtime e0) \<and>
      stage (3 + k) = Inr (INTERR, t) \<longrightarrow>
      (\<exists>e. stage_loop m stage 3 init_evaluation = Inr e \<and> abandoned_inconclusive e \<and>
         trace e = trace e0 @ [STAGE_RUN (3 + k) INTERR t] \<and>
         stages_run (trace e) = [3..<4 + k] \<and> unsat_inst e = unsat_inst e0)) \<and>
   (candidate_evaluation env seed i w = Inr (c, g, e') \<and> is_break e' \<longrightarrow>
      (\<exists>w'. candidate_step env seed i w = Inr w' \<and>
         min_total_solving_runtime w' = min_total_solving_runtime w)) \<and>
   ((\<forall>g. fst (rng_draw env g) = 1 \<or> fst (rng_draw env g) = 0) \<and>
    read_template (read_lines (templates env) (template_name 3)) 0 [] = (V, cls) \<and>
    0 < V \<and> cls \<noteq> [] \<and>
    (\<forall>j cmd. \<exists>ls. solver_exec env j cmd = Some ls \<and> scan_result ls = INTERR) \<longrightarrow>
      (\<forall>w0. \<exists>c g. candidate_evaluation env seed i w0 =
         Inr (c, g, \<lparr>cur_total_runtime = elapsed_time_sec (elapsed_millisec env i 3),
                     unsat_inst = 0, is_break = True,
                     trace = [STAGE_RUN 3 INTERR
                                (elapsed_time_sec (elapsed_millisec env i 3))]\<rparr>)) \<and>
      (\<exists>w. worker_run env cpu_num seed n = Inr w \<and> min_total_solving_runtime w = - 1 \<and>
         stages_run (events w) = replicate n 3 \<and> unsat_verdicts (events w) = 0))"
  using inconclusive_stage [of m stage k e0 t] candidate_step_break [of env seed i w c g e']
    inconclusive_evaluation [of env V cls seed i] inconclusive_run [of env V cls cpu_num seed n]
  by blast

theorem inconclusive_never_promoted_witness:
  "entry_state (- 1) (inconclusive_from 5) 2 =
     Some \<lparr>cur_total_runtime = 2 / 1000, unsat_inst = 0, is_break = False,
           trace = [STAGE_RUN 3 SAT (1 / 1000), WRITE_TO_OUTPUT (LOG_STAGE 3 0 (1 / 1000) (1 / 1000)),
                    STAGE_RUN 4 SAT (1 / 1000), WRITE_TO_OUTPUT (LOG_STAGE 4 0 (1 / 1000) (2 / 1000))]\<rparr> \<and>
   inconclusive_from 5 (3 + 2) = Inr (INTERR, 2 / 1000) \<and>
   (\<exists>e. stage_loop (- 1) (inconclusive_from 5) 3 init_evaluation = Inr e \<and>
      abandoned_inconclusive e \<and> stages_run (trace e) = [3, 4, 5] \<and> unsat_inst e = 0) \<and>
   (\<forall>g. fst (rng_draw inconclusive_env g) = 1 \<or> fst (rng_draw inconclusive_env g) = 0) \<and>
   read_template (read_lines (templates inconclusive_env) (template_name 3)) 0 [] =
     (600, replicate 50 ''1 -2 0'') \<and>
   (\<exists>c g e. candidate_evaluation inconclusive_env 0 0 (start_worker inconclusive_env 1 0) =
      Inr (c, g, e) \<and> is_break e \<and> unsat_inst e = 0 \<and> stages_run (trace e) = [3] \<and>
      (\<exists>w'. candidate_step inconclusive_env 0 0 (start_worker inconclusive_env 1 0) = Inr w' \<and>
         min_total_solving_runtime w' = - 1)) \<and>
   (\<exists>w. worker_run inconclusive_env 1 0 3 = Inr w \<and> min_total_solving_runtime w = - 1 \<and>
      stages_run (events w) = [3, 3, 3] \<and> unsat_verdicts (events w) = 0)"
proof -
  note at_sample = inconclusive_never_promoted [where env = inconclusive_env and V = 600
      and cls = "replicate 50 ''1 -2 0''" and cpu_num = 1 and seed = 0 and n = 3
      and m = "- 1" and stage = "inconclusive_from 5" and k = 2 and t = "2 / 1000" and i = 0
      and w = "start_worker inconclusive_env 1 0"]
  let ?e0 = "\<lparr>cur_total_runtime = 2 / 1000, unsat_inst = 0, is_break = False,
      trace = [STAGE_RUN 3 SAT (1 / 1000), WRITE_TO_OUTPUT (LOG_STAGE 3 0 (1 / 1000) (1 / 1000)),
               STAGE_RUN 4 SAT (1 / 1000), WRITE_TO_OUTPUT (LOG_STAGE 4 0 (1 / 1000) (2 / 1000))]\<rparr>"
  let ?e1 = "\<lparr>cur_total_runtime = elapsed_time_sec (elapsed_millisec inconclusive_env 0 3),
      unsat_inst = 0, is_break = True,
      trace = [STAGE_RUN 3 INTERR (elapsed_time_sec (elapsed_millisec inconclusive_env 0 3))]\<rparr>"
  have entry: "entry_state (- 1) (inconclusive_from 5) 2 = Some ?e0"
    by (simp add: eval_stage inconclusive_from_def eval_nat_numeral)
  have verdict: "inconclusive_from 5 (3 + 2) = Inr (INTERR, 2 / 1000)"
    by (simp add: inconclusive_from_def elapsed_time_sec_def)
  have draws_ok: "\<forall>g. fst (rng_draw inconclusive_env g) = 1 \<or> fst (rng_draw inconclusive_env g) = 0"
    using alternating_contract by (simp add: inconclusive_env_def sample_env_def)
  have tmpl: "read_template (read_lines (templates inconclusive_env) (template_name 3)) 0 [] =
      (600, replicate 50 ''1 -2 0'')"
    by (simp add: inconclusive_env_def sample_env_def read_lines_def sample_template_parsed)
  have never_decides: "\<forall>j cmd. \<exists>ls. solver_exec inconclusive_env j cmd = Some ls \<and> scan_result ls = INTERR"
    using scan_none by (auto simp only: inconclusive_env_def sample_env_def env.simps)
  from at_sample [where ?e0.0 = ?e0 and c = "[]" and g = False and e' = init_evaluation]
    entry verdict
  have stage: "\<exists>e. stage_loop (- 1) (inconclusive_from 5) 3 init_evaluation = Inr e \<and>
      abandoned_inconclusive e \<and> stages_run (trace e) = [3, 4, 5] \<and> unsat_inst e = 0"
    by (auto simp: upt_rec)
  have valid: "(0::nat) < 600" "replicate 50 ''1 -2 0'' \<noteq> []"
    by simp_all
  from at_sample [where ?e0.0 = ?e0 and c = "[]" and g = False and e' = init_evaluation]
    draws_ok tmpl never_decides valid
  have every: "\<forall>w0. \<exists>c g. candidate_evaluation inconclusive_env 0 0 w0 = Inr (c, g, ?e1)"
    and run: "\<exists>w. worker_run inconclusive_env 1 0 3 = Inr w \<and> min_total_solving_runtime w = - 1 \<and>
      stages_run (events w) = replicate 3 3 \<and> unsat_verdicts (events w) = 0"
    by blast+
  from every
  obtain c g where ev: "candidate_evaluation inconclusive_env 0 0 (start_worker inconclusive_env 1 0) =
      Inr (c, g, ?e1)"
    by blast
  from at_sample [where ?e0.0 = ?e0 and c = c and g = g and e' = ?e1] ev
  have "\<exists>w'. candidate_step inconclusive_env 0 0 (start_worker inconclusive_env 1 0) = Inr w' \<and>
      min_total_solving_runtime w' = - 1"
    by (simp add: start_worker_def)
  with ev have candidate: "\<exists>c g e.
      candidate_evaluation inconclusive_env 0 0 (start_worker inconclusive_env 1 0) = Inr (c, g, e) \<and>
      is_break e \<and> unsat_inst e = 0 \<and> stages_run (trace e) = [3] \<and>
      (\<exists>w'. candidate_step inconclusive_env 0 0 (start_worker inconclusive_env 1 0) = Inr w' \<and>
         min_total_solving_runtime w' = - 1)"
    by (intro exI [of _ c] exI [of _ g] exI [of _ ?e1]) simp
  from run have passes: "\<exists>w. worker_run inconclusive_env 1 0 3 = Inr w \<and>
      min_total_solving_runtime w = - 1 \<and>
      stages_run (events w) = [3, 3, 3] \<and> unsat_verdicts (events w) = 0"
    by (simp add: eval_nat_numeral)
  from entry verdict stage draws_ok tmpl candidate passes show ?thesis
    by (intro conjI)
qed

end
